theory Spec2Isabelle
  imports
    Main
    "HOL-Library.Char_ord"
    "HOL-Library.List_Lexorder"
    "HOL-Library.Product_Lexorder"
    "HOL-Library.AList"
begin

section \<open>Values shared by both scripts\<close>

text \<open>
  Text is modelled as \<^typ>\<open>string\<close> over ASCII. A table cell is blank (\<open>None\<close> of
  openpyxl, \<open>NaN\<close> of pandas), a text or an integer; floats, dates and booleans are
  outside the model. Python compares strings by code point, shorter prefix first, which is
  the lexicographic order on \<^typ>\<open>char list\<close>.
\<close>

datatype cell = CNone | CStr string | CInt int

definition isspace :: "char \<Rightarrow> bool" where
  "isspace c = (of_char c \<in> {9, 10, 11, 12, 13, 28, 29, 30, 31, 32 :: nat})"

definition strip :: "string \<Rightarrow> string" where
  "strip s = rev (dropWhile isspace (rev (dropWhile isspace s)))"

definition to_upper :: "char \<Rightarrow> char" where
  "to_upper c = (let n = of_char c :: nat in if 97 \<le> n \<and> n \<le> 122 then char_of (n - 32) else c)"

definition upper :: "string \<Rightarrow> string" where
  "upper s = map to_upper s"

text \<open>\<open>str(n)\<close> for a natural number: its decimal digits.\<close>

function str_nat :: "nat \<Rightarrow> string" where
  "str_nat n = (if n < 10 then [char_of (48 + n)] else str_nat (n div 10) @ [char_of (48 + n mod 10)])"
  by pat_completeness auto
termination
  by (relation "measure id") auto

declare str_nat.simps [simp del]

definition str_int :: "int \<Rightarrow> string" where
  "str_int i = (if i < 0 then CHR ''-'' # str_nat (nat (- i)) else str_nat (nat i))"

text \<open>\<open>str(val)\<close> and the truth value of \<open>val\<close> in a condition.\<close>

fun str_of :: "cell \<Rightarrow> string" where
  "str_of CNone = ''None''"
| "str_of (CStr s) = s"
| "str_of (CInt i) = str_int i"

fun truthy :: "cell \<Rightarrow> bool" where
  "truthy CNone = False"
| "truthy (CStr s) = (s \<noteq> [])"
| "truthy (CInt i) = (i \<noteq> 0)"

text \<open>
  \<^verbatim>\<open>VAcompareNewIssue.py\<close>, \<open>standardize\<close>: blank gives the empty string, anything
  else is rendered, trimmed and upper-cased.
\<close>

definition standardize :: "cell \<Rightarrow> string" where
  "standardize val = (if val = CNone then [] else upper (strip (str_of val)))"


section \<open>Pipeline 1: \<^verbatim>\<open>SummaryVAfromCSV.py\<close>\<close>

text \<open>
  A row of an input CSV as pandas holds it after \<open>read_csv\<close>, restricted to the four
  columns the script uses. \<open>Name\<close>, \<open>Risk\<close> and \<open>Host\<close> are text columns with
  \<open>None\<close> for a missing value; \<open>Port\<close> is any cell. Every readable file is taken to carry
  the four columns (without them the script stops with a \<open>KeyError\<close>).
\<close>

record csv_row =
  Name :: "string option"
  Risk :: "string option"
  Host :: "string option"
  Port :: cell

record finding = csv_row +
  SourceFile :: string

text \<open>
  What the script finds at a path: nothing (\<open>os.path.exists\<close> is false), a file that
  \<open>pd.read_csv\<close> raises on, or a file that parses into rows.
\<close>

datatype csv_file = Missing | Unreadable | Readable "csv_row list"

datatype diag =
  FileNotFound string
  | NoInputFiles
  | NoDataAfterFilter
  | UnexpectedError
  | ReportSaved

datatype error = ReadError

definition tag :: "string \<Rightarrow> csv_row \<Rightarrow> finding" where
  "tag file_name r =
     \<lparr>Name = Name r, Risk = Risk r, Host = Host r, Port = Port r, SourceFile = file_name\<rparr>"

text \<open>
  The read loop (lines 19-29). The diagnostics printed so far are kept when
  \<open>read_csv\<close> raises.
\<close>

fun read_loop ::
  "(string \<times> csv_file) list \<Rightarrow> finding list list \<Rightarrow> diag list
    \<Rightarrow> diag list \<times> (error + finding list list)" where
  "read_loop [] all_dfs out = (out, Inr all_dfs)"
| "read_loop ((file_name, Missing) # fs) all_dfs out =
     read_loop fs all_dfs (out @ [FileNotFound file_name])"
| "read_loop ((file_name, Unreadable) # fs) all_dfs out = (out, Inl ReadError)"
| "read_loop ((file_name, Readable rows) # fs) all_dfs out =
     read_loop fs (all_dfs @ [map (tag file_name) rows]) out"

text \<open>
  \<open>DataFrame.drop_duplicates(subset, keep='first')\<close>: a row is dropped when an earlier
  row has the same values in the subset columns. Values are compared as they are; two
  missing values count as equal.
\<close>

fun drop_dups_from :: "('r \<Rightarrow> 'k) \<Rightarrow> 'k set \<Rightarrow> 'r list \<Rightarrow> 'r list" where
  "drop_dups_from key seen [] = []"
| "drop_dups_from key seen (r # rs) =
     (if key r \<in> seen then drop_dups_from key seen rs
      else r # drop_dups_from key (insert (key r) seen) rs)"

definition drop_duplicates :: "('r \<Rightarrow> 'k) \<Rightarrow> 'r list \<Rightarrow> 'r list" where
  "drop_duplicates key df = drop_dups_from key {} df"

definition subset_Name_Host_Port :: "finding \<Rightarrow> string option \<times> string option \<times> cell" where
  "subset_Name_Host_Port r = (Name r, Host r, Port r)"

definition target_risks :: "string list" where
  "target_risks = [''Critical'', ''High'', ''Medium'']"

definition isin_target :: "finding \<Rightarrow> bool" where
  "isin_target r = (case Risk r of None \<Rightarrow> False | Some k \<Rightarrow> k \<in> set target_risks)"

text \<open>
  \<open>groupby(keys).size().reset_index()\<close>: one row per distinct key, in ascending key
  order, with the number of rows of that key. pandas leaves out every row that has a
  missing value in one of the key columns (\<open>dropna=True\<close>), which is the \<open>None\<close> of
  the key function here.
\<close>

definition groupby_size :: "('r \<Rightarrow> 'k option) \<Rightarrow> 'r list \<Rightarrow> ('k::linorder \<times> nat) list" where
  "groupby_size key df =
     (let ks = List.map_filter key df
      in map (\<lambda>k. (k, count_list ks k)) (sort (remdups ks)))"

definition by_Name_Risk_Host :: "finding \<Rightarrow> (string \<times> string \<times> string) option" where
  "by_Name_Risk_Host r =
     (case (Name r, Risk r, Host r) of
        (Some n, Some k, Some h) \<Rightarrow> Some (n, k, h)
      | _ \<Rightarrow> None)"

definition by_Name_Risk :: "finding \<Rightarrow> (string \<times> string) option" where
  "by_Name_Risk r =
     (case (Name r, Risk r) of
        (Some n, Some k) \<Rightarrow> Some (n, k)
      | _ \<Rightarrow> None)"

text \<open>A row of \<open>report_df\<close>. \<open>Total_Count\<close> is \<open>None\<close> where the left join finds no partner.\<close>

record report_row =
  rName :: string
  rRisk :: "string option"
  Total_Count :: "nat option"
  rHost :: string
  Per_Host_Count :: nat

text \<open>
  \<open>pd.merge(detail_df, summary_df, on=['Name', 'Risk'], how='left')\<close>: the rows of the
  left table in their order, each once per partner on the right, or once with a missing
  total when there is none.
\<close>

definition left_join_row ::
  "((string \<times> string) \<times> nat) list \<Rightarrow> (string \<times> string \<times> string) \<times> nat \<Rightarrow> report_row list" where
  "left_join_row summary_df e =
     (case e of ((n, k, h), c) \<Rightarrow>
        (case filter (\<lambda>(nk, t). nk = (n, k)) summary_df of
           [] \<Rightarrow> [\<lparr>rName = n, rRisk = Some k, Total_Count = None, rHost = h, Per_Host_Count = c\<rparr>]
         | ms \<Rightarrow> map (\<lambda>(nk, t).
             \<lparr>rName = n, rRisk = Some k, Total_Count = Some t, rHost = h, Per_Host_Count = c\<rparr>) ms))"

definition merge_left ::
  "((string \<times> string \<times> string) \<times> nat) list \<Rightarrow> ((string \<times> string) \<times> nat) list \<Rightarrow> report_row list" where
  "merge_left detail_df summary_df = concat (map (left_join_row summary_df) detail_df)"

definition risk_order :: "string list" where
  "risk_order = [''Critical'', ''High'', ''Medium'']"

text \<open>
  \<open>astype(risk_cat)\<close>: a value outside the categories becomes missing. The code of a
  category is its position in \<open>risk_order\<close>; a missing value sorts last.
\<close>

definition astype_risk_cat :: "report_row \<Rightarrow> report_row" where
  "astype_risk_cat row =
     row\<lparr>rRisk := (case rRisk row of
                     None \<Rightarrow> None
                   | Some k \<Rightarrow> if k \<in> set risk_order then Some k else None)\<rparr>"

fun index_of :: "'a \<Rightarrow> 'a list \<Rightarrow> nat option" where
  "index_of x [] = None"
| "index_of x (y # ys) = (if x = y then Some 0 else map_option Suc (index_of x ys))"

definition risk_code :: "string option \<Rightarrow> nat" where
  "risk_code v =
     (case v of
        None \<Rightarrow> length risk_order
      | Some k \<Rightarrow> (case index_of k risk_order of None \<Rightarrow> length risk_order | Some i \<Rightarrow> i))"

text \<open>
  \<open>sort_values(by=['Risk', 'Total_Count', 'Name'], ascending=[True, False, True])\<close>: a
  stable sort on the three keys, the second one descending with missing values last.
\<close>

definition descending_na_last :: "nat option \<Rightarrow> nat \<times> int" where
  "descending_na_last v = (case v of None \<Rightarrow> (1, 0) | Some t \<Rightarrow> (0, - int t))"

definition sort_keys :: "report_row \<Rightarrow> nat \<times> (nat \<times> int) \<times> string" where
  "sort_keys row = (risk_code (rRisk row), descending_na_last (Total_Count row), rName row)"

definition sort_values :: "report_row list \<Rightarrow> report_row list" where
  "sort_values report_df = sort_key sort_keys report_df"

definition output_columns :: "string list" where
  "output_columns = [''Name'', ''Risk'', ''Total_Count'', ''Host'', ''Per_Host_Count'']"

text \<open>
  The outcome of a run: the exit status of the process, the content of the output file
  if one was written (header and rows), and the diagnostics printed. \<open>sys.exit\<close> raises
  \<open>SystemExit\<close>, which \<open>except Exception\<close> does not catch; an exception that it does
  catch is printed and the script ends with status 0 and no output. Writing the file is
  taken to succeed.
\<close>

record run_result =
  exit_code :: nat
  output_file :: "(string list \<times> report_row list) option"
  printed :: "diag list"

definition build_report :: "finding list \<Rightarrow> report_row list" where
  "build_report filtered_df =
     (let detail_df = groupby_size by_Name_Risk_Host filtered_df;
          summary_df = groupby_size by_Name_Risk filtered_df;
          report_df = merge_left detail_df summary_df;
          report_df = map astype_risk_cat report_df
      in sort_values report_df)"

definition SummaryVAfromCSV :: "(string \<times> csv_file) list \<Rightarrow> run_result" where
  "SummaryVAfromCSV INPUT_FILES =
     (case read_loop INPUT_FILES [] [] of
        (out, Inl e) \<Rightarrow>
          \<lparr>exit_code = 0, output_file = None, printed = out @ [UnexpectedError]\<rparr>
      | (out, Inr all_dfs) \<Rightarrow>
          if all_dfs = [] then
            \<lparr>exit_code = 1, output_file = None, printed = out @ [NoInputFiles]\<rparr>
          else
            let df = concat all_dfs;
                df = drop_duplicates subset_Name_Host_Port df;
                filtered_df = filter isin_target df
            in if filtered_df = [] then
                 \<lparr>exit_code = 0, output_file = Some (output_columns, []),
                  printed = out @ [NoDataAfterFilter]\<rparr>
               else
                 \<lparr>exit_code = 0, output_file = Some (output_columns, build_report filtered_df),
                  printed = out @ [ReportSaved]\<rparr>)"


section \<open>Pipeline 2: \<^verbatim>\<open>VAcompareNewIssue.py\<close>\<close>

text \<open>
  A worksheet is the list of its rows, row 1 (the header) first; a row is the list of
  its cells, column 1 first. A cell that is not stored is blank. A workbook is the list
  of its sheets with their names.
\<close>

type_synonym row = "cell list"
type_synonym worksheet = "row list"
type_synonym workbook = "(string \<times> worksheet) list"

definition row_cell :: "row \<Rightarrow> nat \<Rightarrow> cell" where
  "row_cell r c = (if 1 \<le> c \<and> c \<le> length r then r ! (c - 1) else CNone)"

text \<open>\<open>ws.cell(row=r, column=c).value\<close>\<close>

definition cell_value :: "worksheet \<Rightarrow> nat \<Rightarrow> nat \<Rightarrow> cell" where
  "cell_value ws r c = (if 1 \<le> r \<and> r \<le> length ws then row_cell (ws ! (r - 1)) c else CNone)"

text \<open>\<open>ws.cell(row=r, column=c).value = v\<close>, for a row that exists.\<close>

definition set_row_cell :: "row \<Rightarrow> nat \<Rightarrow> cell \<Rightarrow> row" where
  "set_row_cell r c v =
     (if c \<le> length r then r[c - 1 := v]
      else r @ replicate (c - 1 - length r) CNone @ [v])"

definition set_cell :: "worksheet \<Rightarrow> nat \<Rightarrow> nat \<Rightarrow> cell \<Rightarrow> worksheet" where
  "set_cell ws r c v =
     (if 1 \<le> r \<and> r \<le> length ws then ws[r - 1 := set_row_cell (ws ! (r - 1)) c v] else ws)"

text \<open>\<open>ws.delete_rows(idx)\<close> removes row \<open>idx\<close>; the rows below move up.\<close>

definition delete_rows :: "nat \<Rightarrow> worksheet \<Rightarrow> worksheet" where
  "delete_rows idx ws = take (idx - 1) ws @ drop idx ws"

text \<open>
  \<open>ws.insert_cols(idx)\<close> puts a blank column at \<open>idx\<close>; the cells at \<open>idx\<close> and to
  the right of it move one column to the right.
\<close>

definition insert_cols :: "nat \<Rightarrow> worksheet \<Rightarrow> worksheet" where
  "insert_cols idx ws = map (\<lambda>r. take (idx - 1) r @ [CNone] @ drop (idx - 1) r) ws"

definition match_cols :: "string list" where
  "match_cols = [''Plugin ID'', ''Host'', ''Protocol'', ''Port'']"

subsection \<open>Step 1: the lookup set of the prior period\<close>

text \<open>
  \<open>pd.read_excel(q3_path, sheet_name=None)\<close> and \<open>pd.concat\<close>: every data row of every
  sheet, as the function \<open>row.get\<close> from a column name to the value. A column is found
  under the exact text of its header cell (the first one of that text); a column the
  sheet does not have is missing in its rows. Numbers are taken to be read as the same
  integers by pandas and by openpyxl.
\<close>

definition sheet_records :: "worksheet \<Rightarrow> (string \<Rightarrow> cell) list" where
  "sheet_records ws =
     (case ws of
        [] \<Rightarrow> []
      | hdr # rows \<Rightarrow>
          map (\<lambda>r c. case index_of (CStr c) hdr of None \<Rightarrow> CNone | Some i \<Rightarrow> row_cell r (i + 1)) rows)"

definition df_q3_all :: "workbook \<Rightarrow> (string \<Rightarrow> cell) list" where
  "df_q3_all q3_dict = concat (map (\<lambda>(sheet_name, ws). sheet_records ws) q3_dict)"

definition q3_existing_issues :: "workbook \<Rightarrow> string list set" where
  "q3_existing_issues q3_dict =
     set (filter (\<lambda>fingerprint. fingerprint ! 0 \<noteq> [])
           (map (\<lambda>row. map (\<lambda>c. standardize (row c)) match_cols) (df_q3_all q3_dict)))"

subsection \<open>Step 2: one sheet of the current period\<close>

definition headers :: "worksheet \<Rightarrow> string list" where
  "headers ws =
     (case ws of
        [] \<Rightarrow> []
      | hdr # rows \<Rightarrow>
          map (\<lambda>(i, c). if truthy c then strip (str_of c) else ''BlankCol_'' @ str_nat i)
            (enumerate 0 hdr))"

text \<open>
  \<open>col_map\<close> gives the column number (from 1) of a header. The \<open>ValueError\<close> of
  \<open>headers.index\<close> for a header that is absent is the test \<open>has_columns\<close>, which
  the sheet loop makes before it uses \<open>col_map\<close>.
\<close>

definition has_columns :: "string list \<Rightarrow> bool" where
  "has_columns hs = (\<forall>col \<in> set (match_cols @ [''Name'', ''Risk'']). col \<in> set hs)"

definition col_map :: "string list \<Rightarrow> string \<Rightarrow> nat" where
  "col_map hs col = (case index_of col hs of None \<Rightarrow> 0 | Some i \<Rightarrow> i + 1)"

definition fingerprint :: "worksheet \<Rightarrow> (string \<Rightarrow> nat) \<Rightarrow> nat \<Rightarrow> string list" where
  "fingerprint ws cm row_idx = map (\<lambda>c. standardize (cell_value ws row_idx (cm c))) match_cols"

text \<open>The loop of lines 77-82, on the state \<open>(seen_in_q4, rows_to_delete)\<close>.\<close>

definition dedup_step ::
  "worksheet \<Rightarrow> (string \<Rightarrow> nat) \<Rightarrow> string list set \<times> nat list \<Rightarrow> nat \<Rightarrow> string list set \<times> nat list" where
  "dedup_step ws cm st row_idx =
     (case st of (seen_in_q4, rows_to_delete) \<Rightarrow>
        let f_q4 = fingerprint ws cm row_idx
        in if f_q4 \<in> seen_in_q4 \<or> cell_value ws row_idx (cm ''Plugin ID'') = CNone
           then (seen_in_q4, rows_to_delete @ [row_idx])
           else (insert f_q4 seen_in_q4, rows_to_delete))"

definition rows_to_delete :: "worksheet \<Rightarrow> (string \<Rightarrow> nat) \<Rightarrow> nat list" where
  "rows_to_delete ws cm = snd (foldl (dedup_step ws cm) ({}, []) [2..<Suc (length ws)])"

text \<open>Lines 84-85: the marked rows are deleted from the bottom up.\<close>

definition dedup_q4 :: "worksheet \<Rightarrow> (string \<Rightarrow> nat) \<Rightarrow> worksheet" where
  "dedup_q4 ws cm = foldl (\<lambda>w row_idx. delete_rows row_idx w) ws (rev (rows_to_delete ws cm))"

text \<open>
  The counters of one category. A risk value that is one of the five keys of the
  dictionary is counted under that key; \<open>TOTAL\<close> is counted for every row.
\<close>

record risk_counts =
  TOTAL :: nat
  CRITICAL :: nat
  HIGH :: nat
  MEDIUM :: nat
  LOW :: nat

record counts =
  new :: risk_counts
  existing :: risk_counts

definition zero_counts :: counts where
  "zero_counts =
     \<lparr>new = \<lparr>TOTAL = 0, CRITICAL = 0, HIGH = 0, MEDIUM = 0, LOW = 0\<rparr>,
      existing = \<lparr>TOTAL = 0, CRITICAL = 0, HIGH = 0, MEDIUM = 0, LOW = 0\<rparr>\<rparr>"

definition bump :: "string \<Rightarrow> risk_counts \<Rightarrow> risk_counts" where
  "bump risk_val c =
     (let c = c\<lparr>TOTAL := TOTAL c + 1\<rparr>
      in if risk_val = ''TOTAL'' then c\<lparr>TOTAL := TOTAL c + 1\<rparr>
         else if risk_val = ''CRITICAL'' then c\<lparr>CRITICAL := CRITICAL c + 1\<rparr>
         else if risk_val = ''HIGH'' then c\<lparr>HIGH := HIGH c + 1\<rparr>
         else if risk_val = ''MEDIUM'' then c\<lparr>MEDIUM := MEDIUM c + 1\<rparr>
         else if risk_val = ''LOW'' then c\<lparr>LOW := LOW c + 1\<rparr>
         else c)"

text \<open>
  The loop of lines 98-110 on the state \<open>(ws, counts)\<close>. The key and the risk are read
  at the columns of \<open>col_map\<close>, then the status cell of the row is written (its fill
  colour is left out).
\<close>

definition classify_step ::
  "string list set \<Rightarrow> (string \<Rightarrow> nat) \<Rightarrow> nat \<Rightarrow> worksheet \<times> counts \<Rightarrow> nat \<Rightarrow> worksheet \<times> counts" where
  "classify_step q3 cm status_col_idx st row_idx =
     (case st of (ws, cnt) \<Rightarrow>
        let check_key = fingerprint ws cm row_idx;
            risk_val = standardize (cell_value ws row_idx (cm ''Risk''))
        in if check_key \<notin> q3
           then (set_cell ws row_idx status_col_idx (CStr ''New Issue''),
                 cnt\<lparr>new := bump risk_val (new cnt)\<rparr>)
           else (set_cell ws row_idx status_col_idx (CStr ''Existing''),
                 cnt\<lparr>existing := bump risk_val (existing cnt)\<rparr>))"

text \<open>
  The body of the sheet loop (lines 64-112): \<open>None\<close> when the sheet is skipped for a
  missing header, otherwise the sheet as it is left and its counters.
\<close>

definition process_sheet :: "string list set \<Rightarrow> worksheet \<Rightarrow> (worksheet \<times> counts) option" where
  "process_sheet q3 ws =
     (let hs = headers ws
      in if \<not> has_columns hs then None
         else
           let cm = col_map hs;
               ws = dedup_q4 ws cm;
               status_col_idx = cm ''Name'' + 1;
               ws = insert_cols status_col_idx ws;
               ws = set_cell ws 1 status_col_idx (CStr ''Status'')
           in Some (foldl (classify_step q3 cm status_col_idx) (ws, zero_counts)
                      [2..<Suc (length ws)]))"

text \<open>
  The loop over the sheets: the workbook with the processed sheets, and
  \<open>summary_data\<close>, a dictionary in insertion order.
\<close>

fun process_sheets ::
  "string list set \<Rightarrow> workbook \<Rightarrow> (string \<times> counts) list \<Rightarrow> workbook \<times> (string \<times> counts) list" where
  "process_sheets q3 [] summary_data = ([], summary_data)"
| "process_sheets q3 ((sheet_name, ws) # rest) summary_data =
     (case process_sheet q3 ws of
        None \<Rightarrow>
          (case process_sheets q3 rest summary_data of
             (wb, sd) \<Rightarrow> ((sheet_name, ws) # wb, sd))
      | Some (ws', cnt) \<Rightarrow>
          (case process_sheets q3 rest (AList.update sheet_name cnt summary_data) of
             (wb, sd) \<Rightarrow> ((sheet_name, ws') # wb, sd)))"


subsection \<open>Step 3: the sheet \<open>RecurrenceSummary\<close>\<close>

text \<open>\<open>data['new'][r]\<close> for a key \<open>r\<close> of the counter dictionary.\<close>

definition by_risk :: "risk_counts \<Rightarrow> string \<Rightarrow> nat" where
  "by_risk c r =
     (if r = ''TOTAL'' then TOTAL c
      else if r = ''CRITICAL'' then CRITICAL c
      else if r = ''HIGH'' then HIGH c
      else if r = ''MEDIUM'' then MEDIUM c
      else if r = ''LOW'' then LOW c
      else 0)"

definition risks :: "string list" where
  "risks = [''CRITICAL'', ''HIGH'', ''MEDIUM'', ''LOW'']"

record g_total =
  g_new :: nat
  g_ext :: nat
  new_r :: "nat list"
  ext_r :: "nat list"

definition g_total_init :: g_total where
  "g_total_init = \<lparr>g_new = 0, g_ext = 0, new_r = replicate 4 0, ext_r = replicate 4 0\<rparr>"

text \<open>The inner loop of lines 140-142 on one of the two lists of \<open>g_total\<close>.\<close>

definition add_risks :: "nat list \<Rightarrow> risk_counts \<Rightarrow> nat list" where
  "add_risks acc c = foldl (\<lambda>xs (i, r). xs[i := xs ! i + by_risk c r]) acc (enumerate 0 risks)"

text \<open>Lines 138-142, for one entry of \<open>summary_data\<close>.\<close>

definition g_total_step :: "g_total \<Rightarrow> string \<times> counts \<Rightarrow> g_total" where
  "g_total_step g item =
     (case item of (domain, data) \<Rightarrow>
        \<lparr>g_new = g_new g + TOTAL (new data),
         g_ext = g_ext g + TOTAL (existing data),
         new_r = add_risks (new_r g) (new data),
         ext_r = add_risks (ext_r g) (existing data)\<rparr>)"

definition g_total_of :: "(string \<times> counts) list \<Rightarrow> g_total" where
  "g_total_of summary_data = foldl g_total_step g_total_init summary_data"

text \<open>\<open>val or "-"\<close>: a count of zero is written as a dash.\<close>

definition or_dash :: "nat \<Rightarrow> cell" where
  "or_dash v = (if v = 0 then CStr ''-'' else CInt (int v))"

text \<open>
  The three tables, each as its rows of one per domain and its row of totals; a row is
  what the script writes from column B on.
\<close>

definition table1_rows :: "(string \<times> counts) list \<Rightarrow> row list" where
  "table1_rows summary_data =
     map (\<lambda>(domain, data).
        [CStr domain, or_dash (TOTAL (new data)), or_dash (TOTAL (existing data)),
         or_dash (TOTAL (new data) + TOTAL (existing data))]) summary_data"

definition table1_total :: "g_total \<Rightarrow> row" where
  "table1_total g = CStr ''Total'' # map or_dash [g_new g, g_ext g, g_new g + g_ext g]"

definition table2_rows :: "(string \<times> counts) list \<Rightarrow> row list" where
  "table2_rows summary_data =
     map (\<lambda>(domain, data).
        CStr domain # map (\<lambda>r. or_dash (by_risk (new data) r)) risks @ [or_dash (TOTAL (new data))])
       summary_data"

definition table2_total :: "g_total \<Rightarrow> row" where
  "table2_total g = CStr ''Total'' # map (\<lambda>i. or_dash (new_r g ! i)) [0..<4] @ [or_dash (g_new g)]"

definition table3_rows :: "(string \<times> counts) list \<Rightarrow> row list" where
  "table3_rows summary_data =
     map (\<lambda>(domain, data).
        CStr domain # map (\<lambda>r. or_dash (by_risk (existing data) r)) risks
          @ [or_dash (TOTAL (existing data))])
       summary_data"

definition table3_total :: "g_total \<Rightarrow> row" where
  "table3_total g = CStr ''Total'' # map (\<lambda>i. or_dash (ext_r g ! i)) [0..<4] @ [or_dash (g_ext g)]"

text \<open>
  The sheet as \<open>row_ptr\<close> lays it out: the first table from row 2, three empty rows
  between the tables, column A empty.
\<close>

definition ws_sum :: "(string \<times> counts) list \<Rightarrow> worksheet" where
  "ws_sum summary_data =
     (let g = g_total_of summary_data;
          risk_header = map CStr (''Domain'' # risks @ [''Total''])
      in map (\<lambda>r. CNone # r)
           ([[], [CStr ''New Vulnerability Issue Summary''],
             map CStr [''Domain'', ''New Issue'', ''Existing Issue'', ''Total Issue'']]
            @ table1_rows summary_data @ [table1_total g]
            @ [[], [], [], [CStr ''[temp] new issues risk summary''], risk_header]
            @ table2_rows summary_data @ [table2_total g]
            @ [[], [], [], [CStr ''[temp] existing issues risk summary''], risk_header]
            @ table3_rows summary_data @ [table3_total g]))"

text \<open>
  The whole run, given the workbooks that the two file patterns find: \<open>None\<close> when one
  of the patterns finds nothing, otherwise the workbook that is saved.
\<close>

definition process_new_issues_with_risk :: "workbook list \<Rightarrow> workbook list \<Rightarrow> workbook option" where
  "process_new_issues_with_risk q3_files q4_files =
     (if q3_files = [] \<or> q4_files = [] then None
      else
        (case process_sheets (q3_existing_issues (hd q3_files)) (hd q4_files) [] of
           (wb, summary_data) \<Rightarrow>
             Some ((''RecurrenceSummary'', ws_sum summary_data)
                   # filter (\<lambda>(sheet_name, ws). sheet_name \<noteq> ''RecurrenceSummary'') wb)))"

text \<open>The number that a cell of a summary table stands for.\<close>

fun cell_count :: "cell \<Rightarrow> nat" where
  "cell_count (CInt i) = nat i"
| "cell_count _ = 0"


section \<open>Notions used in the statements and proofs\<close>

text \<open>
  The data frames that the read loop collects from a batch without an unreadable file,
  its diagnostics, and the records left after \<open>drop_duplicates\<close>.
\<close>

definition loaded :: "(string \<times> csv_file) list \<Rightarrow> finding list list" where
  "loaded fs = concat (map (\<lambda>(n, f). case f of Readable rows \<Rightarrow> [map (tag n) rows] | _ \<Rightarrow> []) fs)"

definition not_found :: "(string \<times> csv_file) list \<Rightarrow> diag list" where
  "not_found fs = concat (map (\<lambda>(n, f). case f of Missing \<Rightarrow> [FileNotFound n] | _ \<Rightarrow> []) fs)"

definition deduped :: "(string \<times> csv_file) list \<Rightarrow> finding list" where
  "deduped files = drop_duplicates subset_Name_Host_Port (concat (loaded files))"

definition joined :: "finding list \<Rightarrow> (string \<times> string \<times> string) \<times> nat \<Rightarrow> report_row" where
  "joined df e =
     (case e of ((n, k, h), c) \<Rightarrow>
        \<lparr>rName = n, rRisk = Some k,
         Total_Count = Some (count_list (List.map_filter by_Name_Risk df) (n, k)),
         rHost = h, Per_Host_Count = c\<rparr>)"

definition report_rows :: "finding list \<Rightarrow> report_row list" where
  "report_rows df = map (joined df) (groupby_size by_Name_Risk_Host df)"



text \<open>Batches of input files for the concrete runs below.\<close>

definition example_batch :: "(string \<times> csv_file) list" where
  "example_batch =
     [(''scan1.csv'', Readable
        [\<lparr>Name = Some ''A'', Risk = Some ''High'', Host = Some ''h1'', Port = CInt 80\<rparr>,
         \<lparr>Name = Some ''C'', Risk = Some ''Critical'', Host = Some ''h1'', Port = CInt 443\<rparr>,
         \<lparr>Name = Some ''B'', Risk = Some ''Critical'', Host = Some ''h1'', Port = CInt 22\<rparr>,
         \<lparr>Name = Some ''D'', Risk = Some ''Low'', Host = Some ''h1'', Port = CInt 25\<rparr>]),
      (''scan2.csv'', Missing),
      (''scan3.csv'', Readable
        [\<lparr>Name = Some ''A'', Risk = Some ''High'', Host = Some ''h1'', Port = CInt 80\<rparr>,
         \<lparr>Name = Some ''C'', Risk = Some ''Critical'', Host = Some ''h2'', Port = CInt 443\<rparr>,
         \<lparr>Name = Some ''B'', Risk = Some ''Critical'', Host = Some ''h1'', Port = CInt 23\<rparr>])]"

definition example_report :: "report_row list" where
  "example_report =
     [\<lparr>rName = ''B'', rRisk = Some ''Critical'', Total_Count = Some 2, rHost = ''h1'', Per_Host_Count = 2\<rparr>,
      \<lparr>rName = ''C'', rRisk = Some ''Critical'', Total_Count = Some 2, rHost = ''h1'', Per_Host_Count = 1\<rparr>,
      \<lparr>rName = ''C'', rRisk = Some ''Critical'', Total_Count = Some 2, rHost = ''h2'', Per_Host_Count = 1\<rparr>,
      \<lparr>rName = ''A'', rRisk = Some ''High'', Total_Count = Some 1, rHost = ''h1'', Per_Host_Count = 1\<rparr>]"

definition low_only_batch :: "(string \<times> csv_file) list" where
  "low_only_batch =
     [(''scan1.csv'', Readable
        [\<lparr>Name = Some ''D'', Risk = Some ''Low'', Host = Some ''h1'', Port = CInt 25\<rparr>])]"

definition unreadable_batch :: "(string \<times> csv_file) list" where
  "unreadable_batch =
     [(''scan1.csv'', Readable
        [\<lparr>Name = Some ''A'', Risk = Some ''High'', Host = Some ''h1'', Port = CInt 80\<rparr>]),
      (''scan2.csv'', Unreadable)]"

definition missing_host_batch :: "(string \<times> csv_file) list" where
  "missing_host_batch =
     [(''scan1.csv'', Readable
        [\<lparr>Name = Some ''A'', Risk = Some ''High'', Host = None, Port = CInt 80\<rparr>,
         \<lparr>Name = Some ''A'', Risk = Some ''High'', Host = Some ''h1'', Port = CInt 80\<rparr>])]"






text \<open>
  Pipeline 2, by rows. \<open>has_plugin\<close>: the cell under \<open>Plugin ID\<close> holds a value.
  \<open>row_key\<close>: the normalized fingerprint of a row. \<open>survives cm rows i\<close>: row \<open>i\<close> (from
  0, below the header) has a Plugin ID value, and no row above it that has one has the same
  fingerprint. \<open>ins_col\<close>: a row after \<open>insert_cols\<close>. \<open>status_of\<close> and
  \<open>tally\<close>: the status text and the counter update for a key and a risk that were read.
\<close>

definition has_plugin :: "(string \<Rightarrow> nat) \<Rightarrow> row \<Rightarrow> bool" where
  "has_plugin cm r = (row_cell r (cm ''Plugin ID'') \<noteq> CNone)"

definition row_key :: "(string \<Rightarrow> nat) \<Rightarrow> row \<Rightarrow> string list" where
  "row_key cm r = map (\<lambda>c. standardize (row_cell r (cm c))) match_cols"

definition seen_keys :: "(string \<Rightarrow> nat) \<Rightarrow> row list \<Rightarrow> string list set" where
  "seen_keys cm rows = set (map (row_key cm) (filter (has_plugin cm) rows))"

definition survives :: "(string \<Rightarrow> nat) \<Rightarrow> row list \<Rightarrow> nat \<Rightarrow> bool" where
  "survives cm rows i = (has_plugin cm (rows ! i) \<and> row_key cm (rows ! i) \<notin> seen_keys cm (take i rows))"

definition survivors :: "(string \<Rightarrow> nat) \<Rightarrow> row list \<Rightarrow> row list" where
  "survivors cm rows = map ((!) rows) (filter (survives cm rows) [0..<length rows])"

definition ins_col :: "nat \<Rightarrow> row \<Rightarrow> row" where
  "ins_col idx r = take (idx - 1) r @ [CNone] @ drop (idx - 1) r"

definition tally :: "string list set \<Rightarrow> string list \<Rightarrow> string \<Rightarrow> counts \<Rightarrow> counts" where
  "tally q3 check_key risk_val cnt =
     (if check_key \<notin> q3 then cnt\<lparr>new := bump risk_val (new cnt)\<rparr>
      else cnt\<lparr>existing := bump risk_val (existing cnt)\<rparr>)"

definition status_of :: "string list set \<Rightarrow> string list \<Rightarrow> cell" where
  "status_of q3 check_key = CStr (if check_key \<notin> q3 then ''New Issue'' else ''Existing'')"

definition label_row :: "string list set \<Rightarrow> (string \<Rightarrow> nat) \<Rightarrow> nat \<Rightarrow> row \<Rightarrow> row" where
  "label_row q3 cm s r = set_row_cell r s (status_of q3 (row_key cm r))"

definition count_row :: "string list set \<Rightarrow> (string \<Rightarrow> nat) \<Rightarrow> counts \<Rightarrow> row \<Rightarrow> counts" where
  "count_row q3 cm cnt r = tally q3 (row_key cm r) (standardize (row_cell r (cm ''Risk''))) cnt"


text \<open>
  What a read at column \<open>c\<close> of row \<open>i\<close> returns after a column was inserted right of
  column \<open>n\<close>, in terms of the sheet \<open>d\<close> before the insertion.
\<close>

definition read_shifted :: "worksheet \<Rightarrow> nat \<Rightarrow> nat \<Rightarrow> nat \<Rightarrow> cell" where
  "read_shifted d n i c =
     (if c \<le> n then cell_value d i c else if c = n + 1 then CNone else cell_value d i (c - 1))"


text \<open>Sheets and a workbook of the prior period for the concrete runs of pipeline 2.\<close>

definition example_header :: row where
  "example_header = map CStr [''Plugin ID'', ''Risk'', ''Host'', ''Protocol'', ''Port'', ''Name'']"

definition example_rows :: "row list" where
  "example_rows =
     [[CStr ''p1 '', CStr ''High'', CStr '' h1'', CStr ''tcp'', CInt 80, CStr ''vuln''],
      [CStr ''P2'', CStr ''Low'', CStr ''H1'', CStr ''TCP'', CInt 443, CStr ''vuln2''],
      [CStr ''P1'', CStr ''High'', CStr ''H1'', CStr ''TCP'', CStr ''80'', CStr ''vuln''],
      [CNone, CStr ''High'', CStr ''H1'', CStr ''TCP'', CInt 8080, CStr ''vuln3'']]"

definition example_cm :: "string \<Rightarrow> nat" where
  "example_cm = col_map (headers (example_header # example_rows))"

definition prior_workbook :: workbook where
  "prior_workbook =
     [(''dom1'', [example_header,
        [CStr ''P1'', CStr ''High'', CStr ''H1'', CStr ''TCP'', CInt 80, CStr ''vuln'']])]"

definition blank_plugin_sheet :: worksheet where
  "blank_plugin_sheet =
     [example_header,
      [CStr '' '', CStr ''High'', CStr ''H1'', CStr ''TCP'', CInt 80, CStr ''vuln'']]"

definition blank_plugin_result :: "worksheet \<times> counts" where
  "blank_plugin_result =
     ([map CStr [''Plugin ID'', ''Risk'', ''Host'', ''Protocol'', ''Port'', ''Name'', ''Status''],
       [CStr '' '', CStr ''High'', CStr ''H1'', CStr ''TCP'', CInt 80, CStr ''vuln'',
        CStr ''New Issue'']],
      \<lparr>new = \<lparr>TOTAL = 1, CRITICAL = 0, HIGH = 1, MEDIUM = 0, LOW = 0\<rparr>,
       existing = \<lparr>TOTAL = 0, CRITICAL = 0, HIGH = 0, MEDIUM = 0, LOW = 0\<rparr>\<rparr>)"



definition stale_sheet :: worksheet where
  "stale_sheet =
     [map CStr [''Plugin ID'', ''Host'', ''Protocol'', ''Name'', ''Port'', ''Risk''],
      [CStr ''P1'', CStr ''H1'', CStr ''TCP'', CStr ''vuln'', CInt 80, CStr ''High'']]"

definition stale_sheet_result :: "worksheet \<times> counts" where
  "stale_sheet_result =
     ([map CStr [''Plugin ID'', ''Host'', ''Protocol'', ''Name'', ''Status'', ''Port'', ''Risk''],
       [CStr ''P1'', CStr ''H1'', CStr ''TCP'', CStr ''vuln'', CStr ''New Issue'', CInt 80, CStr ''High'']],
      \<lparr>new = \<lparr>TOTAL = 1, CRITICAL = 0, HIGH = 0, MEDIUM = 0, LOW = 0\<rparr>,
       existing = \<lparr>TOTAL = 0, CRITICAL = 0, HIGH = 0, MEDIUM = 0, LOW = 0\<rparr>\<rparr>)"


text \<open>Counters of two domains for the concrete summary below.\<close>

definition example_summary :: "(string \<times> counts) list" where
  "example_summary =
     [(''dom1'', \<lparr>new = \<lparr>TOTAL = 2, CRITICAL = 1, HIGH = 0, MEDIUM = 0, LOW = 1\<rparr>,
                 existing = \<lparr>TOTAL = 0, CRITICAL = 0, HIGH = 0, MEDIUM = 0, LOW = 0\<rparr>\<rparr>),
      (''dom2'', \<lparr>new = \<lparr>TOTAL = 1, CRITICAL = 0, HIGH = 0, MEDIUM = 0, LOW = 0\<rparr>,
                 existing = \<lparr>TOTAL = 4, CRITICAL = 0, HIGH = 3, MEDIUM = 1, LOW = 0\<rparr>\<rparr>)]"


section \<open>Properties of the normalization\<close>








section \<open>Properties of pipeline 1\<close>

lemma drop_dups_from_sound:
  "r \<in> set (drop_dups_from key S xs) \<Longrightarrow> r \<in> set xs \<and> key r \<notin> S"
  by (induction xs arbitrary: S) (auto split: if_splits)

lemma drop_dups_from_distinct: "distinct (map key (drop_dups_from key S xs))"
  by (induction xs arbitrary: S) (auto dest: drop_dups_from_sound)

lemma drop_dups_from_fixed:
  "distinct (map key ys) \<Longrightarrow> \<forall>y\<in>set ys. key y \<notin> S \<Longrightarrow> drop_dups_from key S ys = ys"
proof (induction ys arbitrary: S)
  case Nil
  then show ?case by simp
next
  case (Cons a ys)
  have "\<forall>y\<in>set ys. key y \<notin> insert (key a) S"
    using Cons.prems by (auto simp: image_iff)
  moreover have "distinct (map key ys)" using Cons.prems by simp
  ultimately have "drop_dups_from key (insert (key a) S) ys = ys"
    by (rule Cons.IH[rotated])
  then show ?case using Cons.prems by simp
qed

lemma drop_duplicates_idem:
  "drop_duplicates key (drop_duplicates key df) = drop_duplicates key df"
  unfolding drop_duplicates_def
  by (rule drop_dups_from_fixed) (auto simp: drop_dups_from_distinct)

lemma drop_duplicates_subset: "set (drop_duplicates key df) \<subseteq> set df"
  unfolding drop_duplicates_def by (auto dest: drop_dups_from_sound)

lemma read_loop_no_unreadable:
  "\<forall>(n, f) \<in> set fs. f \<noteq> Unreadable \<Longrightarrow>
   read_loop fs all_dfs out = (out @ not_found fs, Inr (all_dfs @ loaded fs))"
proof (induction fs all_dfs out rule: read_loop.induct)
  case (1 all_dfs out)
  then show ?case by (simp add: loaded_def not_found_def)
next
  case (2 file_name fs all_dfs out)
  then show ?case by (simp add: loaded_def not_found_def)
next
  case (3 file_name fs all_dfs out)
  then show ?case by simp
next
  case (4 file_name rows fs all_dfs out)
  then show ?case by (simp add: loaded_def not_found_def)
qed

lemma read_loop_unreadable:
  "(n, Unreadable) \<in> set fs \<Longrightarrow> \<exists>out'. read_loop fs all_dfs out = (out', Inl ReadError)"
  by (induction fs all_dfs out rule: read_loop.induct) auto

lemma loaded_filter: "loaded (filter (\<lambda>(n, f). f \<noteq> Missing) fs) = loaded fs"
  unfolding loaded_def by (induction fs) (auto split: csv_file.splits)

lemma loaded_nonempty: "(n, Readable rows) \<in> set fs \<Longrightarrow> loaded fs \<noteq> []"
  unfolding loaded_def by (induction fs) (auto split: csv_file.splits)

lemma not_found_mem: "(n, Missing) \<in> set fs \<Longrightarrow> FileNotFound n \<in> set (not_found fs)"
  unfolding not_found_def by force

text \<open>
  Claim C7. When the files are read, at least one of them, and no record that is left
  after the deduplication has a risk of \<open>Critical\<close>, \<open>High\<close> or \<open>Medium\<close>, the run
  writes a table with the header \<open>Name, Risk, Total_Count, Host, Per_Host_Count\<close> and no
  rows, and ends with status 0.
\<close>

theorem C7_empty_result:
  assumes "read_loop INPUT_FILES [] [] = (out, Inr all_dfs)"
    and "all_dfs \<noteq> []"
    and "\<forall>r \<in> set (drop_duplicates subset_Name_Host_Port (concat all_dfs)).
           Risk r \<notin> {Some ''Critical'', Some ''High'', Some ''Medium''}"
  shows "SummaryVAfromCSV INPUT_FILES =
           \<lparr>exit_code = 0,
            output_file = Some ([''Name'', ''Risk'', ''Total_Count'', ''Host'', ''Per_Host_Count''], []),
            printed = out @ [NoDataAfterFilter]\<rparr>"
proof -
  have "filter isin_target (drop_duplicates subset_Name_Host_Port (concat all_dfs)) = []"
    using assms(3) by (auto simp: filter_empty_conv isin_target_def target_risks_def split: option.splits)
  then show ?thesis
    using assms(1,2) by (simp add: SummaryVAfromCSV_def output_columns_def)
qed

lemma in_map_filter: "k \<in> set (List.map_filter key df) \<longleftrightarrow> (\<exists>r\<in>set df. key r = Some k)"
  by (induction df) (auto split: option.splits)

lemma filter_eq_singleton: "distinct xs \<Longrightarrow> a \<in> set xs \<Longrightarrow> filter (\<lambda>x. x = a) xs = [a]"
  by (induction xs) (auto simp: filter_empty_conv)

lemma groupby_size_lookup:
  assumes "k \<in> set (List.map_filter key df)"
  shows "filter (\<lambda>(k', t). k' = k) (groupby_size key df) = [(k, count_list (List.map_filter key df) k)]"
proof -
  let ?ks = "List.map_filter key df"
  have "filter (\<lambda>x. x = k) (sort (remdups ?ks)) = [k]"
    using assms by (intro filter_eq_singleton) auto
  then show ?thesis
    by (simp add: groupby_size_def Let_def filter_map comp_def)
qed

lemma groupby_size_mem:
  "(k, c) \<in> set (groupby_size key df) \<Longrightarrow> k \<in> set (List.map_filter key df)"
  by (auto simp: groupby_size_def Let_def)

lemma by_Name_Risk_Host_Some:
  "by_Name_Risk_Host r = Some (n, k, h) \<longleftrightarrow> Name r = Some n \<and> Risk r = Some k \<and> Host r = Some h"
  by (auto simp: by_Name_Risk_Host_def split: option.splits)

lemma by_Name_Risk_Some:
  "by_Name_Risk r = Some (n, k) \<longleftrightarrow> Name r = Some n \<and> Risk r = Some k"
  by (auto simp: by_Name_Risk_def split: option.splits)

lemma merge_left_groupby:
  "merge_left (groupby_size by_Name_Risk_Host df) (groupby_size by_Name_Risk df)
     = map (joined df) (groupby_size by_Name_Risk_Host df)"
proof -
  have "left_join_row (groupby_size by_Name_Risk df) e = [joined df e]"
    if "e \<in> set (groupby_size by_Name_Risk_Host df)" for e
  proof -
    obtain n k h c where e: "e = ((n, k, h), c)" by (metis prod_cases3 surj_pair)
    from that e have "(n, k, h) \<in> set (List.map_filter by_Name_Risk_Host df)"
      by (auto dest: groupby_size_mem)
    then obtain r where "r \<in> set df" "by_Name_Risk_Host r = Some (n, k, h)"
      by (auto simp: in_map_filter)
    then have "(n, k) \<in> set (List.map_filter by_Name_Risk df)"
      by (auto simp: in_map_filter by_Name_Risk_Host_Some by_Name_Risk_Some)
    from groupby_size_lookup[OF this] show ?thesis
      by (simp add: e joined_def left_join_row_def)
  qed
  then have eq: "map (left_join_row (groupby_size by_Name_Risk df)) (groupby_size by_Name_Risk_Host df)
       = map (\<lambda>e. [joined df e]) (groupby_size by_Name_Risk_Host df)"
    by (intro map_cong) auto
  show ?thesis
    unfolding merge_left_def eq by (rule concat_map_singleton)
qed

lemma joined_risk_in_target:
  assumes "\<forall>r\<in>set df. isin_target r" and "e \<in> set (groupby_size by_Name_Risk_Host df)"
  shows "\<exists>k. rRisk (joined df e) = Some k \<and> k \<in> set risk_order"
proof -
  obtain n k h c where e: "e = ((n, k, h), c)" by (metis prod_cases3 surj_pair)
  from assms(2) e obtain r where "r \<in> set df" "by_Name_Risk_Host r = Some (n, k, h)"
    by (auto dest!: groupby_size_mem simp: in_map_filter)
  with assms(1) have "k \<in> set risk_order"
    by (auto simp: isin_target_def by_Name_Risk_Host_Some risk_order_def target_risks_def)
  then show ?thesis by (simp add: e joined_def)
qed

lemma build_report_eq:
  assumes "\<forall>r\<in>set df. isin_target r"
  shows "build_report df = sort_key sort_keys (report_rows df)"
proof -
  have "map astype_risk_cat (report_rows df) = report_rows df"
    unfolding report_rows_def
  proof (rule map_idI, clarsimp)
    fix e assume "e \<in> set (groupby_size by_Name_Risk_Host df)"
    from joined_risk_in_target[OF assms this]
    obtain k where "rRisk (joined df e) = Some k" "k \<in> set risk_order" by blast
    then show "astype_risk_cat (joined df e) = joined df e"
      by (simp add: astype_risk_cat_def)
  qed
  then show ?thesis
    unfolding build_report_def Let_def merge_left_groupby sort_values_def report_rows_def
    by (rule arg_cong)
qed

lemma build_report_Nil: "build_report [] = []"
  by (simp add: build_report_def groupby_size_def merge_left_def sort_values_def)

lemma output_rows:
  assumes "output_file (SummaryVAfromCSV files) = Some (cols, rows)"
  shows "cols = output_columns \<and> rows = build_report (filter isin_target (deduped files))"
proof -
  have nu: "\<forall>(n, f) \<in> set files. f \<noteq> Unreadable"
  proof (rule ccontr)
    assume "\<not> ?thesis"
    then obtain n where "(n, Unreadable) \<in> set files" by auto
    from read_loop_unreadable[OF this, of "[]" "[]"] assms show False
      by (auto simp: SummaryVAfromCSV_def)
  qed
  have a: "read_loop files [] [] = (not_found files, Inr (loaded files))"
    using read_loop_no_unreadable[OF nu, of "[]" "[]"] by simp
  show ?thesis
    using assms
    by (auto simp: SummaryVAfromCSV_def a Let_def deduped_def build_report_Nil split: if_splits)
qed

lemma index_of_Some: "x \<in> set xs \<Longrightarrow> \<exists>i. index_of x xs = Some i \<and> i < length xs \<and> xs ! i = x"
  by (induction xs) auto

lemma risk_code_pos:
  assumes "k \<in> set risk_order"
  shows "risk_code (Some k) < length risk_order \<and> risk_order ! risk_code (Some k) = k"
  using index_of_Some[OF assms] by (auto simp: risk_code_def)

lemma report_rows_shape:
  assumes "\<forall>r\<in>set df. isin_target r" and "row \<in> set (report_rows df)"
  shows "\<exists>k. rRisk row = Some k \<and> k \<in> set risk_order
          \<and> Total_Count row = Some (count_list (List.map_filter by_Name_Risk df) (rName row, k))"
proof -
  from assms(2) obtain e where e: "e \<in> set (groupby_size by_Name_Risk_Host df)" "row = joined df e"
    by (auto simp: report_rows_def)
  from joined_risk_in_target[OF assms(1) e(1)] obtain k where
    k: "rRisk row = Some k" "k \<in> set risk_order" using e(2) by auto
  obtain n k' h c where "e = ((n, k', h), c)" by (metis prod_cases3 surj_pair)
  with e(2) k show ?thesis by (auto simp: joined_def)
qed


text \<open>
  Claim C4. Of two rows of the output, the one that comes first has the risk that is
  earlier in \<open>risk_order\<close> (\<open>Critical\<close>, \<open>High\<close>, \<open>Medium\<close>), or the same risk and the
  greater total, or the same risk and total and a name that is not greater. Every row has
  a risk of \<open>risk_order\<close> and a total.
\<close>

theorem C4_output_order:
  assumes "output_file (SummaryVAfromCSV files) = Some (cols, rows)"
    and "i < j" and "j < length rows"
  shows "\<exists>pi pj ti tj.
           pi < length risk_order \<and> rRisk (rows ! i) = Some (risk_order ! pi)
         \<and> pj < length risk_order \<and> rRisk (rows ! j) = Some (risk_order ! pj)
         \<and> Total_Count (rows ! i) = Some ti \<and> Total_Count (rows ! j) = Some tj
         \<and> (pi < pj \<or> (pi = pj \<and> (tj < ti \<or> (ti = tj \<and> rName (rows ! i) \<le> rName (rows ! j)))))"
proof -
  let ?df = "filter isin_target (deduped files)"
  have all: "\<forall>r\<in>set ?df. isin_target r" by simp
  have rows: "rows = sort_key sort_keys (report_rows ?df)"
    using output_rows[OF assms(1)] build_report_eq[OF all] by simp
  have mem: "rows ! m \<in> set (report_rows ?df)" if "m < length rows" for m
    using that rows by (metis nth_mem set_sort)
  from report_rows_shape[OF all mem[of i]] assms(2,3) obtain ki ti where
    i: "rRisk (rows ! i) = Some ki" "ki \<in> set risk_order" "Total_Count (rows ! i) = Some ti"
    by auto
  from report_rows_shape[OF all mem[of j]] assms(3) obtain kj tj where
    j: "rRisk (rows ! j) = Some kj" "kj \<in> set risk_order" "Total_Count (rows ! j) = Some tj"
    by auto
  have "sorted (map sort_keys rows)" unfolding rows by (rule sorted_sort_key)
  then have "map sort_keys rows ! i \<le> map sort_keys rows ! j"
    using assms(2,3) by (intro sorted_nth_mono) auto
  then have le: "sort_keys (rows ! i) \<le> sort_keys (rows ! j)"
    using assms(2,3) by simp
  have ord: "risk_code (Some ki) < risk_code (Some kj)
        \<or> (risk_code (Some ki) = risk_code (Some kj)
            \<and> (tj < ti \<or> (ti = tj \<and> rName (rows ! i) \<le> rName (rows ! j))))"
    using le by (auto simp: sort_keys_def i j descending_na_last_def)
  show ?thesis
    using risk_code_pos[OF i(2)] risk_code_pos[OF j(2)] i j ord
    by (intro exI[of _ "risk_code (Some ki)"] exI[of _ "risk_code (Some kj)"] exI[of _ ti] exI[of _ tj])
       simp
qed

lemma sum_list_insort_key: "sum_list (map g (insort_key f x xs)) = (g x :: nat) + sum_list (map g xs)"
  by (induction xs) auto

lemma sum_list_sort_key: "sum_list (map g (sort_key f xs)) = (sum_list (map g xs) :: nat)"
  by (induction xs) (simp_all add: sum_list_insort_key)

lemma sum_count_remdups: "sum_list (map (count_list xs) (remdups xs)) = length xs"
  using sum_count_set[of xs "set xs"] by (simp add: sum_list_distinct_conv_sum_set)

lemma count_list_filter: "count_list (filter Q xs) x = (if Q x then count_list xs x else 0)"
  by (induction xs) auto

lemma sum_count_filter:
  "sum_list (map (count_list xs) (filter Q (sort (remdups xs)))) = length (filter Q xs)"
proof -
  have "sum_list (map (count_list xs) (filter Q (sort (remdups xs))))
        = sum_list (map (count_list xs) (remdups (filter Q xs)))"
    by (simp add: filter_sort sum_list_sort_key remdups_filter)
  also have "map (count_list xs) (remdups (filter Q xs))
        = map (count_list (filter Q xs)) (remdups (filter Q xs))"
    by (rule map_cong) (auto simp: count_list_filter)
  finally show ?thesis by (simp add: sum_count_remdups)
qed

lemma length_filter_map_filter:
  "length (filter Q (List.map_filter key df)) = length (filter (\<lambda>r. case key r of None \<Rightarrow> False | Some k \<Rightarrow> Q k) df)"
  by (induction df) (auto split: option.splits)

lemma per_host_sum:
  "sum_list (map Per_Host_Count (filter (\<lambda>r'. rName r' = n \<and> rRisk r' = Some k) (report_rows df)))
     = length (filter (\<lambda>r. Name r = Some n \<and> Risk r = Some k \<and> Host r \<noteq> None) df)"
proof -
  let ?ks = "List.map_filter by_Name_Risk_Host df"
  let ?Q = "\<lambda>x. fst x = n \<and> fst (snd x) = k"
  let ?g = "\<lambda>x. joined df (x, count_list ?ks x)"
  have rr: "report_rows df = map ?g (sort (remdups ?ks))"
    by (simp add: report_rows_def groupby_size_def Let_def comp_def)
  have P: "(\<lambda>r'. rName r' = n \<and> rRisk r' = Some k) \<circ> ?g = ?Q"
    by (auto simp: fun_eq_iff joined_def)
  have c: "Per_Host_Count \<circ> ?g = count_list ?ks"
    by (auto simp: fun_eq_iff joined_def)
  have "sum_list (map Per_Host_Count (filter (\<lambda>r'. rName r' = n \<and> rRisk r' = Some k) (report_rows df)))
        = sum_list (map (count_list ?ks) (filter ?Q (sort (remdups ?ks))))"
    unfolding rr filter_map P map_map c ..
  also have "\<dots> = length (filter ?Q ?ks)" by (rule sum_count_filter)
  also have "\<dots> = length (filter (\<lambda>r. Name r = Some n \<and> Risk r = Some k \<and> Host r \<noteq> None) df)"
    unfolding length_filter_map_filter
    by (rule arg_cong[where f = length], rule filter_cong)
       (auto simp: by_Name_Risk_Host_def split: option.splits)
  finally show ?thesis .
qed

lemma total_count:
  "count_list (List.map_filter by_Name_Risk df) (n, k)
     = length (filter (\<lambda>r. Name r = Some n \<and> Risk r = Some k) df)"
  by (induction df) (auto simp: by_Name_Risk_def split: option.splits)

lemma loaded_origin:
  "r \<in> set (concat (loaded fs)) \<Longrightarrow>
     \<exists>n rs r0. (n, Readable rs) \<in> set fs \<and> r0 \<in> set rs \<and> r = tag n r0"
proof (induction fs)
  case Nil
  then show ?case by (simp add: loaded_def)
next
  case (Cons a fs)
  obtain n f where a: "a = (n, f)" by (cases a)
  have split: "loaded (a # fs) = (case f of Readable rows \<Rightarrow> [map (tag n) rows] | _ \<Rightarrow> []) @ loaded fs"
    by (simp add: loaded_def a)
  show ?case
  proof (cases "r \<in> set (concat (loaded fs))")
    case True
    from Cons.IH[OF this] show ?thesis by (metis list.set_intros(2))
  next
    case False
    with Cons.prems split obtain rows where "f = Readable rows" "r \<in> set (map (tag n) rows)"
      by (cases f) auto
    then show ?thesis using a by (metis imageE list.set_intros(1) set_map)
  qed
qed

lemma deduped_origin:
  assumes "r \<in> set (deduped files)"
  shows "\<exists>n rs r0. (n, Readable rs) \<in> set files \<and> r0 \<in> set rs \<and> r = tag n r0"
proof -
  from assms have "r \<in> set (concat (loaded files))"
    using drop_duplicates_subset[of subset_Name_Host_Port "concat (loaded files)"]
    unfolding deduped_def by (rule_tac subsetD)
  then show ?thesis by (rule loaded_origin)
qed

text \<open>
  Claim C3, as the script has it. Every row of the output has a total. When every input
  record with a risk of the allow-list has a host, the total of a row is the sum of
  \<open>Per_Host_Count\<close> over the rows of the output with the same name and risk.
\<close>

theorem C3_total_count:
  assumes "output_file (SummaryVAfromCSV files) = Some (cols, rows)"
    and "row \<in> set rows"
  shows "\<exists>t. Total_Count row = Some t \<and>
          ((\<forall>(n, f)\<in>set files. \<forall>rs. f = Readable rs \<longrightarrow>
              (\<forall>r\<in>set rs. Risk r \<in> Some ` set target_risks \<longrightarrow> Host r \<noteq> None))
           \<longrightarrow> t = sum_list (map Per_Host_Count
                      (filter (\<lambda>r'. rName r' = rName row \<and> rRisk r' = rRisk row) rows)))"
proof -
  let ?df = "filter isin_target (deduped files)"
  have all: "\<forall>r\<in>set ?df. isin_target r" by simp
  have rows: "rows = sort_key sort_keys (report_rows ?df)"
    using output_rows[OF assms(1)] build_report_eq[OF all] by simp
  then have "row \<in> set (report_rows ?df)" using assms(2) by simp
  from report_rows_shape[OF all this] obtain k where
    k: "rRisk row = Some k" "k \<in> set risk_order"
       "Total_Count row = Some (count_list (List.map_filter by_Name_Risk ?df) (rName row, k))"
    by auto
  have "count_list (List.map_filter by_Name_Risk ?df) (rName row, k)
          = sum_list (map Per_Host_Count
                      (filter (\<lambda>r'. rName r' = rName row \<and> rRisk r' = rRisk row) rows))"
    if hosts: "\<forall>(n, f)\<in>set files. \<forall>rs. f = Readable rs \<longrightarrow>
              (\<forall>r\<in>set rs. Risk r \<in> Some ` set target_risks \<longrightarrow> Host r \<noteq> None)"
  proof -
    have h: "Host r \<noteq> None" if "r \<in> set ?df" for r
    proof -
      from that have "r \<in> set (deduped files)" "isin_target r" by auto
      from deduped_origin[OF this(1)] obtain n rs r0 where
        o: "(n, Readable rs) \<in> set files" "r0 \<in> set rs" "r = tag n r0" by blast
      from \<open>isin_target r\<close> o(3) have "Risk r0 \<in> Some ` set target_risks"
        by (auto simp: isin_target_def tag_def split: option.splits)
      with hosts o(1,2) have "Host r0 \<noteq> None" by blast
      then show ?thesis by (simp add: o(3) tag_def)
    qed
    have "filter (\<lambda>r. Name r = Some (rName row) \<and> Risk r = Some k \<and> Host r \<noteq> None) ?df
        = filter (\<lambda>r. Name r = Some (rName row) \<and> Risk r = Some k) ?df"
      by (rule filter_cong) (use h in auto)
    then show ?thesis
      unfolding rows filter_sort sum_list_sort_key k(1) per_host_sum total_count by simp
  qed
  then show ?thesis using k(3) by simp
qed


text \<open>
  Claim C8, as the script has it. A path at which no file exists is skipped with the
  diagnostic \<open>FileNotFound\<close>: when no file of the batch is unreadable and at least one is
  read, the run ends with status 0 and writes the report of the rows of the files that were
  read (\<open>loaded\<close>), deduplicated and filtered, which is also the output of the run on the
  batch without the missing paths. A file that exists and cannot be read is not skipped:
  whenever the batch has one, the run ends in the handler of \<open>except Exception\<close>, with its
  diagnostic, status 0 and no output.
\<close>

theorem C8_missing_skipped:
  "((\<forall>(n, f) \<in> set files. f \<noteq> Unreadable) \<and> (\<exists>n rows. (n, Readable rows) \<in> set files) \<longrightarrow>
        exit_code (SummaryVAfromCSV files) = 0
      \<and> output_file (SummaryVAfromCSV files)
          = Some (output_columns,
                  build_report (filter isin_target
                    (drop_duplicates subset_Name_Host_Port (concat (loaded files)))))
      \<and> output_file (SummaryVAfromCSV files)
          = output_file (SummaryVAfromCSV (filter (\<lambda>(n, f). f \<noteq> Missing) files))
      \<and> (\<forall>n. (n, Missing) \<in> set files \<longrightarrow> FileNotFound n \<in> set (printed (SummaryVAfromCSV files))))
   \<and> ((\<exists>n. (n, Unreadable) \<in> set files) \<longrightarrow>
        exit_code (SummaryVAfromCSV files) = 0
      \<and> output_file (SummaryVAfromCSV files) = None
      \<and> UnexpectedError \<in> set (printed (SummaryVAfromCSV files)))"
proof (intro conjI impI)
  assume h: "(\<forall>(n, f) \<in> set files. f \<noteq> Unreadable) \<and> (\<exists>n rows. (n, Readable rows) \<in> set files)"
  let ?fs' = "filter (\<lambda>(n, f). f \<noteq> Missing) files"
  have a: "read_loop files [] [] = (not_found files, Inr (loaded files))"
    using read_loop_no_unreadable[of files "[]" "[]"] h by simp
  have "\<forall>(n, f) \<in> set ?fs'. f \<noteq> Unreadable" using h by auto
  from read_loop_no_unreadable[OF this, of "[]" "[]"]
  have b: "read_loop ?fs' [] [] = (not_found ?fs', Inr (loaded files))"
    by (simp add: loaded_filter)
  have ne: "loaded files \<noteq> []" using h loaded_nonempty by blast
  have out: "output_file (SummaryVAfromCSV fs)
          = Some (output_columns,
                  build_report (filter isin_target
                    (drop_duplicates subset_Name_Host_Port (concat (loaded files)))))"
    if "read_loop fs [] [] = (out, Inr (loaded files))" for fs out
    using that ne by (simp add: SummaryVAfromCSV_def Let_def build_report_Nil)
  show "exit_code (SummaryVAfromCSV files) = 0"
    using ne by (simp add: SummaryVAfromCSV_def a Let_def)
  show "output_file (SummaryVAfromCSV files)
          = Some (output_columns,
                  build_report (filter isin_target
                    (drop_duplicates subset_Name_Host_Port (concat (loaded files)))))"
    by (rule out[OF a])
  show "output_file (SummaryVAfromCSV files) = output_file (SummaryVAfromCSV ?fs')"
    by (simp only: out[OF a] out[OF b])
  show "\<forall>n. (n, Missing) \<in> set files \<longrightarrow> FileNotFound n \<in> set (printed (SummaryVAfromCSV files))"
    using ne by (simp add: SummaryVAfromCSV_def a Let_def not_found_mem)
next
  assume "\<exists>n. (n, Unreadable) \<in> set files"
  then obtain n where "(n, Unreadable) \<in> set files" ..
  from read_loop_unreadable[OF this, of "[]" "[]"]
  obtain out' where r: "read_loop files [] [] = (out', Inl ReadError)" ..
  show "exit_code (SummaryVAfromCSV files) = 0"
    and "output_file (SummaryVAfromCSV files) = None"
    and "UnexpectedError \<in> set (printed (SummaryVAfromCSV files))"
    by (simp_all add: SummaryVAfromCSV_def r)
qed

subsection \<open>Concrete runs of pipeline 1\<close>

lemma example_run:
  "SummaryVAfromCSV example_batch =
     \<lparr>exit_code = 0, output_file = Some (output_columns, example_report),
      printed = [FileNotFound ''scan2.csv'', ReportSaved]\<rparr>"
  by code_simp

text \<open>
  Claim C8 at a batch with a missing file between two readable ones, and at a batch with an
  unreadable file.
\<close>

theorem C8_missing_skipped_witness:
  "exit_code (SummaryVAfromCSV example_batch) = 0
     \<and> output_file (SummaryVAfromCSV example_batch)
          = Some (output_columns,
                  build_report (filter isin_target
                    (drop_duplicates subset_Name_Host_Port (concat (loaded example_batch)))))
     \<and> FileNotFound ''scan2.csv'' \<in> set (printed (SummaryVAfromCSV example_batch))
     \<and> output_file (SummaryVAfromCSV unreadable_batch) = None
     \<and> UnexpectedError \<in> set (printed (SummaryVAfromCSV unreadable_batch))"
proof -
  have h1: "\<forall>(n, f) \<in> set example_batch. f \<noteq> Unreadable"
    by (simp add: example_batch_def)
  have h2: "\<exists>n rows. (n, Readable rows) \<in> set example_batch"
    by (simp add: example_batch_def) blast
  have m: "(''scan2.csv'', Missing) \<in> set example_batch"
    by (simp add: example_batch_def)
  have u: "\<exists>n. (n, Unreadable) \<in> set unreadable_batch"
    by (simp add: unreadable_batch_def)
  from C8_missing_skipped[of example_batch] h1 h2 m
       C8_missing_skipped[of unreadable_batch] u
  show ?thesis by blast
qed

text \<open>
  Claim C8 as it is stated fails: one file is read and the next one is unreadable, and the run
  ends in the handler of \<open>except Exception\<close> without an output.
\<close>

theorem C8_unreadable_counterexample:
  "SummaryVAfromCSV unreadable_batch =
     \<lparr>exit_code = 0, output_file = None, printed = [UnexpectedError]\<rparr>"
  by code_simp

text \<open>
  Claim C7 at a batch whose only record has the risk \<open>Low\<close>.
\<close>

theorem C7_empty_result_witness:
  "SummaryVAfromCSV low_only_batch =
     \<lparr>exit_code = 0,
      output_file = Some ([''Name'', ''Risk'', ''Total_Count'', ''Host'', ''Per_Host_Count''], []),
      printed = [NoDataAfterFilter]\<rparr>"
proof -
  let ?dfs = "[[\<lparr>Name = Some ''D'', Risk = Some ''Low'', Host = Some ''h1'', Port = CInt 25,
                 SourceFile = ''scan1.csv''\<rparr>]]"
  have h1: "read_loop low_only_batch [] [] = ([], Inr ?dfs)"
    by (simp add: low_only_batch_def tag_def)
  have h2: "?dfs \<noteq> []" by simp
  have h3: "\<forall>r \<in> set (drop_duplicates subset_Name_Host_Port (concat ?dfs)).
           Risk r \<notin> {Some ''Critical'', Some ''High'', Some ''Medium''}"
    by (simp add: drop_duplicates_def)
  from C7_empty_result[OF h1 h2 h3] show ?thesis by simp
qed

text \<open>
  Claim C4 at the first two rows of the report of the example batch: same risk, same total,
  ordered by name.
\<close>

theorem C4_output_order_witness:
  "\<exists>pi pj ti tj.
           pi < length risk_order \<and> rRisk (example_report ! 0) = Some (risk_order ! pi)
         \<and> pj < length risk_order \<and> rRisk (example_report ! 1) = Some (risk_order ! pj)
         \<and> Total_Count (example_report ! 0) = Some ti \<and> Total_Count (example_report ! 1) = Some tj
         \<and> (pi < pj \<or> (pi = pj \<and> (tj < ti \<or> (ti = tj \<and> rName (example_report ! 0) \<le> rName (example_report ! 1)))))"
proof -
  have h1: "output_file (SummaryVAfromCSV example_batch) = Some (output_columns, example_report)"
    by (simp add: example_run)
  have h2: "(0::nat) < 1" by simp
  have h3: "1 < length example_report" by (simp add: example_report_def)
  from C4_output_order[OF h1 h2 h3] show ?thesis .
qed

text \<open>
  Claim C3 at the second row of the report of the example batch.
\<close>

theorem C3_total_count_witness:
  "Total_Count (example_report ! 1) = Some 2"
proof -
  let ?row = "example_report ! 1"
  have h1: "output_file (SummaryVAfromCSV example_batch) = Some (output_columns, example_report)"
    by (simp add: example_run)
  have h2: "?row \<in> set example_report" by (simp add: example_report_def)
  have h3: "\<forall>(n, f)\<in>set example_batch. \<forall>rs. f = Readable rs \<longrightarrow>
              (\<forall>r\<in>set rs. Risk r \<in> Some ` set target_risks \<longrightarrow> Host r \<noteq> None)"
    by (simp add: example_batch_def)
  have s: "sum_list (map Per_Host_Count
             (filter (\<lambda>r'. rName r' = rName ?row \<and> rRisk r' = rRisk ?row) example_report)) = 2"
    by (simp add: example_report_def)
  from C3_total_count[OF h1 h2] h3 s show ?thesis by auto
qed

text \<open>
  Claim C3 as it is stated fails: of two records of one name and risk, one without a host, the
  total is 2 and the only row per host counts 1.
\<close>

theorem C3_missing_host_counterexample:
  "output_file (SummaryVAfromCSV missing_host_batch) =
     Some (output_columns,
       [\<lparr>rName = ''A'', rRisk = Some ''High'', Total_Count = Some 2, rHost = ''h1'',
         Per_Host_Count = 1\<rparr>])"
  by code_simp



section \<open>Properties of pipeline 2\<close>

subsection \<open>The deduplication loop and the classification loop, by rows\<close>

lemma cell_value_data_row:
  "m < length rows \<Longrightarrow> cell_value (hdr # rows) (Suc (Suc m)) c = row_cell (rows ! m) c"
  by (simp add: cell_value_def)

lemma fingerprint_data_row:
  "m < length rows \<Longrightarrow> fingerprint (hdr # rows) cm (Suc (Suc m)) = row_key cm (rows ! m)"
  by (simp add: fingerprint_def row_key_def cell_value_data_row)

lemma seen_keys_snoc:
  "seen_keys cm (xs @ [r]) = (if has_plugin cm r then insert (row_key cm r) (seen_keys cm xs) else seen_keys cm xs)"
  by (auto simp: seen_keys_def)

lemma dedup_step_data_row:
  assumes "m < length rows"
  shows "dedup_step (hdr # rows) cm (S, D) (Suc (Suc m)) =
           (if row_key cm (rows ! m) \<in> S \<or> \<not> has_plugin cm (rows ! m)
            then (S, D @ [Suc (Suc m)])
            else (insert (row_key cm (rows ! m)) S, D))"
  using assms
  by (simp add: dedup_step_def Let_def fingerprint_data_row cell_value_data_row has_plugin_def)

lemma dedup_scan:
  "m \<le> length rows \<Longrightarrow>
     foldl (dedup_step (hdr # rows) cm) ({}, []) [2..<2 + m]
       = (seen_keys cm (take m rows),
          map (\<lambda>i. i + 2) (filter (\<lambda>i. \<not> survives cm rows i) [0..<m]))"
proof (induction m)
  case 0
  then show ?case by (simp add: seen_keys_def)
next
  case (Suc m)
  then have m: "m < length rows" by simp
  let ?S = "seen_keys cm (take m rows)"
  let ?D = "map (\<lambda>i. i + 2) (filter (\<lambda>i. \<not> survives cm rows i) [0..<m])"
  have IH: "foldl (dedup_step (hdr # rows) cm) ({}, []) [2..<2 + m] = (?S, ?D)"
    using Suc.IH m by simp
  have upt: "[2..<2 + Suc m] = [2..<2 + m] @ [Suc (Suc m)]" by simp
  have tk: "take (Suc m) rows = take m rows @ [rows ! m]"
    using m by (simp add: take_Suc_conv_app_nth)
  have sv: "survives cm rows m = (has_plugin cm (rows ! m) \<and> row_key cm (rows ! m) \<notin> ?S)"
    by (simp add: survives_def)
  have "foldl (dedup_step (hdr # rows) cm) ({}, []) [2..<2 + Suc m]
          = dedup_step (hdr # rows) cm (?S, ?D) (Suc (Suc m))"
    unfolding upt foldl_append IH by simp
  also have "\<dots> = (seen_keys cm (take (Suc m) rows),
          map (\<lambda>i. i + 2) (filter (\<lambda>i. \<not> survives cm rows i) [0..<Suc m]))"
    unfolding dedup_step_data_row[OF m] tk seen_keys_snoc
    by (auto simp: sv)
  finally show ?case .
qed

lemma rows_to_delete_eq:
  "rows_to_delete (hdr # rows) cm
     = map (\<lambda>i. i + 2) (filter (\<lambda>i. \<not> survives cm rows i) [0..<length rows])"
  using dedup_scan[of "length rows" rows hdr cm]
  by (simp add: rows_to_delete_def)

lemma delete_marked:
  "m \<le> length rows \<Longrightarrow>
     foldr delete_rows (map (\<lambda>i. i + 2) (filter (\<lambda>i. \<not> P i) [0..<m])) (hdr # take m rows @ tail)
       = hdr # map ((!) rows) (filter P [0..<m]) @ tail"
proof (induction m arbitrary: tail)
  case 0
  then show ?case by simp
next
  case (Suc m)
  then have m: "m < length rows" by simp
  have tk: "take (Suc m) rows = take m rows @ [rows ! m]"
    using m by (simp add: take_Suc_conv_app_nth)
  show ?case
  proof (cases "P m")
    case True
    then show ?thesis
      using Suc.IH[of "rows ! m # tail"] m by (simp add: tk)
  next
    case False
    have len: "length (take m rows) = m" using m by simp
    have "delete_rows (m + 2) (hdr # take m rows @ rows ! m # tail) = hdr # take m rows @ tail"
      using m by (simp add: delete_rows_def min_absorb2)
    then show ?thesis
      using Suc.IH[of tail] m False by (simp add: tk)
  qed
qed

lemma dedup_q4_eq: "dedup_q4 (hdr # rows) cm = hdr # survivors cm rows"
proof -
  have "dedup_q4 (hdr # rows) cm = foldr delete_rows (rows_to_delete (hdr # rows) cm) (hdr # rows)"
    by (simp add: dedup_q4_def foldl_conv_foldr)
  also have "\<dots> = hdr # survivors cm rows"
    using delete_marked[of "length rows" rows "survives cm rows" hdr "[]"]
    by (simp add: rows_to_delete_eq survivors_def)
  finally show ?thesis .
qed

lemma dedup_q4_Nil: "dedup_q4 [] cm = []"
  by (simp add: dedup_q4_def rows_to_delete_def)

lemma drop_dups_from_snoc:
  "drop_dups_from key S (xs @ [x])
     = drop_dups_from key S xs @ (if key x \<in> S \<union> key ` set xs then [] else [x])"
  by (induction xs arbitrary: S) auto

lemma survives_append:
  "i < length rows \<Longrightarrow> survives cm (rows @ [r]) i = survives cm rows i"
  by (simp add: survives_def nth_append)

lemma survivors_snoc:
  "survivors cm (rows @ [r])
     = survivors cm rows @ (if has_plugin cm r \<and> row_key cm r \<notin> seen_keys cm rows then [r] else [])"
proof -
  have f: "filter (survives cm (rows @ [r])) [0..<length rows] = filter (survives cm rows) [0..<length rows]"
    by (rule filter_cong) (auto simp: survives_append)
  have m: "map ((!) (rows @ [r])) (filter (survives cm rows) [0..<length rows])
         = map ((!) rows) (filter (survives cm rows) [0..<length rows])"
    by (rule map_cong) (auto simp: nth_append)
  have last: "survives cm (rows @ [r]) (length rows)
         = (has_plugin cm r \<and> row_key cm r \<notin> seen_keys cm rows)"
    by (simp add: survives_def)
  show ?thesis
    by (simp add: survivors_def f m last)
qed

lemma survivors_drop_duplicates:
  "survivors cm rows = drop_duplicates (row_key cm) (filter (has_plugin cm) rows)"
proof (induction rows rule: rev_induct)
  case Nil
  then show ?case by (simp add: survivors_def drop_duplicates_def)
next
  case (snoc r rows)
  then show ?case
    by (simp add: survivors_snoc drop_duplicates_def drop_dups_from_snoc seen_keys_def)
qed

lemma survivors_have_plugin: "r \<in> set (survivors cm rows) \<Longrightarrow> has_plugin cm r"
  using drop_duplicates_subset[of "row_key cm" "filter (has_plugin cm) rows"]
  by (auto simp: survivors_drop_duplicates)

lemma survivors_idem: "survivors cm (survivors cm rows) = survivors cm rows"
proof -
  have "filter (has_plugin cm) (survivors cm rows) = survivors cm rows"
    by (rule filter_True) (simp add: survivors_have_plugin)
  then have "survivors cm (survivors cm rows) = drop_duplicates (row_key cm) (survivors cm rows)"
    by (simp add: survivors_drop_duplicates[of cm "survivors cm rows"])
  also have "\<dots> = survivors cm rows"
    by (simp add: survivors_drop_duplicates drop_duplicates_idem)
  finally show ?thesis .
qed

lemma dedup_q4_idem: "dedup_q4 (dedup_q4 ws cm) cm = dedup_q4 ws cm"
  by (cases ws) (simp_all add: dedup_q4_Nil dedup_q4_eq survivors_idem)

lemma insert_cols_map: "insert_cols idx ws = map (ins_col idx) ws"
  by (simp add: insert_cols_def ins_col_def)

lemma classify_step_data_row:
  assumes "m < length rows"
  shows "classify_step q3 cm s (h # rows, cnt) (Suc (Suc m))
           = (h # rows[m := label_row q3 cm s (rows ! m)], count_row q3 cm cnt (rows ! m))"
  using assms
  by (simp add: classify_step_def Let_def fingerprint_data_row cell_value_data_row set_cell_def
      label_row_def count_row_def tally_def status_of_def)

lemma classify_loop:
  "m \<le> length rows \<Longrightarrow>
     foldl (classify_step q3 cm s) (h # rows, cnt0) [2..<2 + m]
       = (h # map (label_row q3 cm s) (take m rows) @ drop m rows,
          foldl (count_row q3 cm) cnt0 (take m rows))"
proof (induction m)
  case 0
  then show ?case by simp
next
  case (Suc m)
  then have m: "m < length rows" by simp
  let ?L = "label_row q3 cm s"
  let ?rows = "map ?L (take m rows) @ drop m rows"
  have IH: "foldl (classify_step q3 cm s) (h # rows, cnt0) [2..<2 + m]
              = (h # ?rows, foldl (count_row q3 cm) cnt0 (take m rows))"
    using Suc.IH m by simp
  have upt: "[2..<2 + Suc m] = [2..<2 + m] @ [Suc (Suc m)]" by simp
  have tk: "take (Suc m) rows = take m rows @ [rows ! m]"
    using m by (simp add: take_Suc_conv_app_nth)
  have len: "m < length ?rows" using m by simp
  have nth: "?rows ! m = rows ! m" using m by (simp add: nth_append)
  have upd: "?rows[m := x] = map ?L (take m rows) @ x # drop (Suc m) rows" for x
    using m by (simp add: list_update_append Cons_nth_drop_Suc[symmetric])
  show ?case
    unfolding upt foldl_append IH
    by (simp add: classify_step_data_row[OF len] nth upd tk)
qed

lemma has_columns_nonempty: "has_columns (headers ws) \<Longrightarrow> ws \<noteq> []"
  by (auto simp: has_columns_def headers_def match_cols_def)

lemma process_sheet_eq:
  assumes "has_columns (headers (hdr # rows))"
  shows "process_sheet q3 (hdr # rows) =
     (let cm = col_map (headers (hdr # rows)); s = cm ''Name'' + 1;
          ys = map (ins_col s) (survivors cm rows)
      in Some (set_row_cell (ins_col s hdr) s (CStr ''Status'') # map (label_row q3 cm s) ys,
               foldl (count_row q3 cm) zero_counts ys))"
proof -
  let ?cm = "col_map (headers (hdr # rows))"
  let ?s = "?cm ''Name'' + 1"
  let ?ys = "map (ins_col ?s) (survivors ?cm rows)"
  let ?h = "set_row_cell (ins_col ?s hdr) ?s (CStr ''Status'')"
  have ws3: "set_cell (insert_cols ?s (dedup_q4 (hdr # rows) ?cm)) 1 ?s (CStr ''Status'') = ?h # ?ys"
    by (simp add: dedup_q4_eq insert_cols_map set_cell_def)
  have loop: "foldl (classify_step q3 ?cm ?s) (?h # ?ys, zero_counts) [2..<2 + length ?ys]
          = (?h # map (label_row q3 ?cm ?s) ?ys, foldl (count_row q3 ?cm) zero_counts ?ys)"
    using classify_loop[of "length ?ys" ?ys q3 ?cm ?s ?h zero_counts] by simp
  have upt: "[2..<Suc (length (?h # ?ys))] = [2..<2 + length ?ys]" by simp
  have "process_sheet q3 (hdr # rows)
          = Some (?h # map (label_row q3 ?cm ?s) ?ys, foldl (count_row q3 ?cm) zero_counts ?ys)"
    unfolding process_sheet_def Let_def ws3 upt loop using assms by simp
  then show ?thesis by (simp add: Let_def)
qed

lemma row_cell_ins_col:
  "row_cell (ins_col (Suc n) r) c
     = (if c \<le> n then row_cell r c else if c = Suc n then CNone else row_cell r (c - 1))"
proof (cases "c \<le> n")
  case True
  then show ?thesis
    by (cases c) (auto simp: row_cell_def ins_col_def nth_append)
next
  case False
  show ?thesis
  proof (cases "c = Suc n")
    case True
    then show ?thesis
      by (auto simp: row_cell_def ins_col_def nth_append)
  next
    case far: False
    define k where "k = c - 2"
    have c: "c = Suc (Suc k)" and k: "n \<le> k"
      using False far by (simp_all add: k_def)
    show ?thesis
      unfolding c using k
      by (auto simp: row_cell_def ins_col_def nth_append min_def Suc_diff_le)
  qed
qed


subsection \<open>Deduplication and the reads of the classification loop\<close>

text \<open>
  Claim C9. Deduplicating twice gives what deduplicating once gives, for the
  \<open>drop_duplicates\<close> of pipeline 1 on Name, Host and Port and for the deduplication of
  a sheet in pipeline 2.
\<close>

theorem C9_dedup_idempotent:
  "drop_duplicates subset_Name_Host_Port (drop_duplicates subset_Name_Host_Port df)
     = drop_duplicates subset_Name_Host_Port df
   \<and> dedup_q4 (dedup_q4 ws cm) cm = dedup_q4 ws cm"
  by (simp add: drop_duplicates_idem dedup_q4_idem)

text \<open>
  What the deduplication of a sheet computes. It leaves the header and, in sheet order,
  exactly the rows whose Plugin ID cell is not \<open>None\<close> and whose normalized fingerprint no
  row above them with such a cell has; all other rows are removed from the sheet. The loop
  tests the cell itself (line 79), where the set of the prior period tests the normalized
  text (line 53).
\<close>

theorem dedup_q4_first_rows:
  "dedup_q4 [] cm = []
   \<and> dedup_q4 (hdr # rows) cm
       = hdr # map ((!) rows) (filter (survives cm rows) [0..<length rows])"
  using dedup_q4_eq[of hdr rows cm] by (simp add: dedup_q4_Nil survivors_def)

lemma row_cell_set_row_cell: "1 \<le> s \<Longrightarrow> row_cell (set_row_cell r s v) s = v"
  by (auto simp: row_cell_def set_row_cell_def nth_append)

lemma row_key_ins_col:
  assumes "m < length ys"
  shows "row_key cm (ins_col (Suc n) (ys ! m))
           = map (\<lambda>c. standardize (read_shifted (hdr # ys) n (Suc (Suc m)) (cm c))) match_cols"
  using assms
  by (simp add: row_key_def row_cell_ins_col read_shifted_def cell_value_data_row)

lemma risk_ins_col:
  assumes "m < length ys"
  shows "row_cell (ins_col (Suc n) (ys ! m)) c = read_shifted (hdr # ys) n (Suc (Suc m)) c"
  using assms
  by (simp add: row_cell_ins_col read_shifted_def cell_value_data_row)

lemma count_rows_by_index:
  "m \<le> length ys \<Longrightarrow>
   foldl (\<lambda>a i. tally q3
            (map (\<lambda>c. standardize (read_shifted (hdr # ys) n i (cm c))) match_cols)
            (standardize (read_shifted (hdr # ys) n i (cm ''Risk''))) a) a0 [2..<2 + m]
     = foldl (count_row q3 cm) a0 (map (ins_col (Suc n)) (take m ys))"
proof (induction m)
  case 0
  then show ?case by simp
next
  case (Suc m)
  then have m: "m < length ys" by simp
  have upt: "[2..<2 + Suc m] = [2..<2 + m] @ [Suc (Suc m)]" by simp
  have tk: "take (Suc m) ys = take m ys @ [ys ! m]"
    using m by (simp add: take_Suc_conv_app_nth)
  have IH: "foldl (\<lambda>a i. tally q3
            (map (\<lambda>c. standardize (read_shifted (hdr # ys) n i (cm c))) match_cols)
            (standardize (read_shifted (hdr # ys) n i (cm ''Risk''))) a) a0 [2..<2 + m]
     = foldl (count_row q3 cm) a0 (map (ins_col (Suc n)) (take m ys))"
    using Suc.IH m by simp
  have step: "count_row q3 cm a (ins_col (Suc n) (ys ! m))
     = tally q3 (map (\<lambda>c. standardize (read_shifted (hdr # ys) n (Suc (Suc m)) (cm c))) match_cols)
         (standardize (read_shifted (hdr # ys) n (Suc (Suc m)) (cm ''Risk''))) a" for a
    by (simp add: count_row_def row_key_ins_col[OF m, where hdr = hdr] risk_ins_col[OF m, where hdr = hdr])
  show ?case
    unfolding upt foldl_append tk map_append IH
    by (simp add: step)
qed

lemma process_sheet_Some_columns:
  "process_sheet q3 ws = Some res \<Longrightarrow> has_columns (headers ws)"
  by (auto simp: process_sheet_def Let_def split: if_splits)

text \<open>
  Claim C10. After the status column is inserted right of \<open>Name\<close> (column \<open>n\<close>), the
  key and the risk of row \<open>i\<close> are read at the column numbers of the header before the
  insertion. In terms of the deduplicated sheet \<open>d\<close>, a read at column \<open>c\<close> returns the
  cell of column \<open>c\<close> when \<open>c \<le> n\<close>, a blank when \<open>c = n + 1\<close>, and the cell of column
  \<open>c - 1\<close> otherwise (\<open>read_shifted\<close>). The status written and the counters are
  computed from these reads.
\<close>

theorem C10_reads_at_stale_columns:
  assumes "process_sheet q3 ws = Some (ws', cnt)"
    and "cm = col_map (headers ws)" and "n = cm ''Name''" and "d = dedup_q4 ws cm"
  shows "length ws' = length d
     \<and> (\<forall>i. 2 \<le> i \<and> i \<le> length d \<longrightarrow>
           cell_value ws' i (n + 1)
             = status_of q3 (map (\<lambda>c. standardize (read_shifted d n i (cm c))) match_cols))
     \<and> cnt = foldl (\<lambda>a i. tally q3
                  (map (\<lambda>c. standardize (read_shifted d n i (cm c))) match_cols)
                  (standardize (read_shifted d n i (cm ''Risk''))) a)
               zero_counts [2..<Suc (length d)]"
proof -
  have hc: "has_columns (headers ws)" using assms(1) by (rule process_sheet_Some_columns)
  then obtain hdr rows where ws: "ws = hdr # rows"
    using has_columns_nonempty by (cases ws) auto
  define ys where "ys = survivors cm rows"
  have d: "d = hdr # ys" by (simp add: assms(4) ws dedup_q4_eq ys_def)
  let ?h = "set_row_cell (ins_col (Suc n) hdr) (Suc n) (CStr ''Status'')"
  from process_sheet_eq[OF hc[unfolded ws], of q3] assms(1)
  have ws': "ws' = ?h # map (label_row q3 cm (Suc n)) (map (ins_col (Suc n)) ys)"
    and cnt: "cnt = foldl (count_row q3 cm) zero_counts (map (ins_col (Suc n)) ys)"
    by (simp_all add: ws Let_def assms(2,3) ys_def)
  have len: "length ws' = length d" by (simp add: ws' d)
  have lab: "cell_value ws' i (n + 1)
             = status_of q3 (map (\<lambda>c. standardize (read_shifted d n i (cm c))) match_cols)"
    if "2 \<le> i" "i \<le> length d" for i
  proof -
    define m where "m = i - 2"
    have i: "i = Suc (Suc m)" and m: "m < length ys"
      using that by (simp_all add: m_def d)
    have "cell_value ws' i (n + 1) = row_cell (label_row q3 cm (Suc n) (ins_col (Suc n) (ys ! m))) (Suc n)"
      using m by (simp add: ws' i cell_value_data_row)
    also have "\<dots> = status_of q3 (row_key cm (ins_col (Suc n) (ys ! m)))"
      by (simp add: label_row_def row_cell_set_row_cell)
    finally show ?thesis
      by (simp add: row_key_ins_col[OF m, where hdr = hdr] d i)
  qed
  have "foldl (\<lambda>a i. tally q3
                  (map (\<lambda>c. standardize (read_shifted d n i (cm c))) match_cols)
                  (standardize (read_shifted d n i (cm ''Risk''))) a)
               zero_counts [2..<2 + length ys] = cnt"
    unfolding d cnt using count_rows_by_index[of "length ys" ys q3 hdr n cm zero_counts] by simp
  moreover have "[2..<Suc (length d)] = [2..<2 + length ys]" by (simp add: d)
  ultimately show ?thesis using len lab by simp
qed


subsection \<open>Findings that differ in spaces and letter case only\<close>









subsection \<open>Concrete runs of pipeline 2\<close>

lemma stale_sheet_run:
  "process_sheet (q3_existing_issues prior_workbook) stale_sheet = Some stale_sheet_result"
  by code_simp

text \<open>
  Claim C9 at the example sheet.
\<close>

theorem C9_dedup_idempotent_witness:
  "dedup_q4 (dedup_q4 (example_header # example_rows) example_cm)
       example_cm
     = dedup_q4 (example_header # example_rows) example_cm"
  using C9_dedup_idempotent[of "[]" "example_header # example_rows" example_cm]
  by simp

text \<open>
  The deduplication of the example sheet: the third row repeats the fingerprint of the
  first, the fourth has no Plugin ID.
\<close>

theorem dedup_q4_first_rows_example:
  "dedup_q4 (example_header # example_rows) example_cm
     = [example_header, example_rows ! 0, example_rows ! 1]"
proof -
  have "map ((!) example_rows)
          (filter (survives example_cm example_rows) [0..<length example_rows])
        = [example_rows ! 0, example_rows ! 1]"
    by code_simp
  with dedup_q4_first_rows[of example_cm example_header example_rows]
  show ?thesis by simp
qed

text \<open>
  Claim C6 at a sheet whose only row has a blank text as Plugin ID. The primary component of
  its fingerprint is empty, and the deduplication keeps the row. The set of the prior period
  built from the same sheet leaves the record out, so the row is labelled \<open>New Issue\<close>
  although the prior workbook holds it.
\<close>

theorem C6_blank_plugin_failing_input:
  "standardize (cell_value blank_plugin_sheet 2 (col_map (headers blank_plugin_sheet) ''Plugin ID'')) = []
   \<and> dedup_q4 blank_plugin_sheet (col_map (headers blank_plugin_sheet)) = blank_plugin_sheet
   \<and> q3_existing_issues [(''dom1'', blank_plugin_sheet)] = {}
   \<and> process_sheet (q3_existing_issues [(''dom1'', blank_plugin_sheet)]) blank_plugin_sheet
       = Some blank_plugin_result"
  by code_simp

text \<open>
  Claim C10 at a sheet with \<open>Port\<close> and \<open>Risk\<close> right of \<open>Name\<close>: the port is read from the
  new blank column and the risk from the column of the port.
\<close>

theorem C10_reads_at_stale_columns_witness:
  "cell_value (fst stale_sheet_result) 2 (col_map (headers stale_sheet) ''Name'' + 1) = CStr ''New Issue''
   \<and> read_shifted (dedup_q4 stale_sheet (col_map (headers stale_sheet)))
         (col_map (headers stale_sheet) ''Name'') 2 (col_map (headers stale_sheet) ''Port'') = CNone
   \<and> read_shifted (dedup_q4 stale_sheet (col_map (headers stale_sheet)))
         (col_map (headers stale_sheet) ''Name'') 2 (col_map (headers stale_sheet) ''Risk'') = CInt 80"
proof -
  let ?q3 = "q3_existing_issues prior_workbook"
  let ?cm = "col_map (headers stale_sheet)"
  let ?d = "dedup_q4 stale_sheet ?cm"
  have h: "process_sheet ?q3 stale_sheet = Some (fst stale_sheet_result, snd stale_sheet_result)"
    by (simp add: stale_sheet_run)
  have i: "2 \<le> (2::nat) \<and> 2 \<le> length ?d" by code_simp
  have e: "status_of ?q3 (map (\<lambda>c. standardize (read_shifted ?d (?cm ''Name'') 2 (?cm c))) match_cols)
             = CStr ''New Issue''"
    by code_simp
  have r1: "read_shifted ?d (?cm ''Name'') 2 (?cm ''Port'') = CNone" by code_simp
  have r2: "read_shifted ?d (?cm ''Name'') 2 (?cm ''Risk'') = CInt 80" by code_simp
  note all = C10_reads_at_stale_columns[OF h refl refl refl, THEN conjunct2, THEN conjunct1]
  from all[rule_format, OF i] have "cell_value (fst stale_sheet_result) 2 (?cm ''Name'' + 1)
      = CStr ''New Issue''"
    unfolding e .
  with r1 r2 show ?thesis by simp
qed

text \<open>
  Claim C2 at the same sheet: the fingerprint of the row is in the set of the prior period,
  and the row is labelled \<open>New Issue\<close>.
\<close>

theorem C2_stale_column_failing_input:
  "fingerprint stale_sheet (col_map (headers stale_sheet)) 2 \<in> q3_existing_issues prior_workbook
   \<and> process_sheet (q3_existing_issues prior_workbook) stale_sheet = Some stale_sheet_result"
  by code_simp





subsection \<open>The summary tables\<close>

lemma cell_count_or_dash: "cell_count (or_dash v) = v"
  by (simp add: or_dash_def)

lemma add_risks_4:
  "add_risks [a, b, c, d] x = [a + CRITICAL x, b + HIGH x, c + MEDIUM x, d + LOW x]"
  by (simp add: add_risks_def risks_def by_risk_def)

lemma g_total_fold:
  "foldl g_total_step
     \<lparr>g_new = a, g_ext = b, new_r = [n1, n2, n3, n4], ext_r = [e1, e2, e3, e4]\<rparr> sd
   = \<lparr>g_new = a + sum_list (map (\<lambda>x. TOTAL (new (snd x))) sd),
      g_ext = b + sum_list (map (\<lambda>x. TOTAL (existing (snd x))) sd),
      new_r = [n1 + sum_list (map (\<lambda>x. CRITICAL (new (snd x))) sd),
               n2 + sum_list (map (\<lambda>x. HIGH (new (snd x))) sd),
               n3 + sum_list (map (\<lambda>x. MEDIUM (new (snd x))) sd),
               n4 + sum_list (map (\<lambda>x. LOW (new (snd x))) sd)],
      ext_r = [e1 + sum_list (map (\<lambda>x. CRITICAL (existing (snd x))) sd),
               e2 + sum_list (map (\<lambda>x. HIGH (existing (snd x))) sd),
               e3 + sum_list (map (\<lambda>x. MEDIUM (existing (snd x))) sd),
               e4 + sum_list (map (\<lambda>x. LOW (existing (snd x))) sd)]\<rparr>"
proof (induction sd arbitrary: a b n1 n2 n3 n4 e1 e2 e3 e4)
  case Nil
  then show ?case by simp
next
  case (Cons x sd)
  obtain domain data where x: "x = (domain, data)" by (cases x)
  have step: "g_total_step
       \<lparr>g_new = a, g_ext = b, new_r = [n1, n2, n3, n4], ext_r = [e1, e2, e3, e4]\<rparr> (domain, data)
     = \<lparr>g_new = a + TOTAL (new data), g_ext = b + TOTAL (existing data),
        new_r = [n1 + CRITICAL (new data), n2 + HIGH (new data),
                 n3 + MEDIUM (new data), n4 + LOW (new data)],
        ext_r = [e1 + CRITICAL (existing data), e2 + HIGH (existing data),
                 e3 + MEDIUM (existing data), e4 + LOW (existing data)]\<rparr>"
    by (simp add: g_total_step_def add_risks_4)
  show ?case
    unfolding x foldl_Cons step Cons.IH by (simp add: add.assoc)
qed

lemma g_total_of_eq:
  "g_total_of sd
   = \<lparr>g_new = sum_list (map (\<lambda>x. TOTAL (new (snd x))) sd),
      g_ext = sum_list (map (\<lambda>x. TOTAL (existing (snd x))) sd),
      new_r = [sum_list (map (\<lambda>x. CRITICAL (new (snd x))) sd),
               sum_list (map (\<lambda>x. HIGH (new (snd x))) sd),
               sum_list (map (\<lambda>x. MEDIUM (new (snd x))) sd),
               sum_list (map (\<lambda>x. LOW (new (snd x))) sd)],
      ext_r = [sum_list (map (\<lambda>x. CRITICAL (existing (snd x))) sd),
               sum_list (map (\<lambda>x. HIGH (existing (snd x))) sd),
               sum_list (map (\<lambda>x. MEDIUM (existing (snd x))) sd),
               sum_list (map (\<lambda>x. LOW (existing (snd x))) sd)]\<rparr>"
  using g_total_fold[of 0 0 0 0 0 0 0 0 0 0 sd]
  by (simp add: g_total_of_def g_total_init_def numeral_eq_Suc)

lemma table1_column:
  "k \<in> {1, 2, 3} \<Longrightarrow>
   sum_list (map (\<lambda>r. cell_count (r ! k)) (table1_rows sd))
     = sum_list (map (\<lambda>x. [TOTAL (new (snd x)), TOTAL (existing (snd x)),
                              TOTAL (new (snd x)) + TOTAL (existing (snd x))] ! (k - 1)) sd)"
  by (induction sd) (auto simp: table1_rows_def cell_count_or_dash)

lemma table2_column:
  "k \<in> {1, 2, 3, 4, 5} \<Longrightarrow>
   sum_list (map (\<lambda>r. cell_count (r ! k)) (table2_rows sd))
     = sum_list (map (\<lambda>x. [CRITICAL (new (snd x)), HIGH (new (snd x)), MEDIUM (new (snd x)),
                              LOW (new (snd x)), TOTAL (new (snd x))] ! (k - 1)) sd)"
  by (induction sd) (auto simp: table2_rows_def risks_def by_risk_def cell_count_or_dash)

lemma table3_column:
  "k \<in> {1, 2, 3, 4, 5} \<Longrightarrow>
   sum_list (map (\<lambda>r. cell_count (r ! k)) (table3_rows sd))
     = sum_list (map (\<lambda>x. [CRITICAL (existing (snd x)), HIGH (existing (snd x)),
                              MEDIUM (existing (snd x)), LOW (existing (snd x)),
                              TOTAL (existing (snd x))] ! (k - 1)) sd)"
  by (induction sd) (auto simp: table3_rows_def risks_def by_risk_def cell_count_or_dash)

lemma sum_list_add_map: "sum_list (map (\<lambda>x. f x + g x) xs) = sum_list (map f xs) + (sum_list (map g xs) :: nat)"
  by (induction xs) auto

text \<open>
  Claim C5. With a dash read as zero, every cell of the row of totals of each of the three
  tables is the sum of its column over the rows of the domains. The total of new issues of
  the first table is the sum of the \<open>Total\<close> column of the second table, and its total of
  existing issues is the sum of the \<open>Total\<close> column of the third.
\<close>

theorem C5_grand_totals:
  "map cell_count (tl (table1_total (g_total_of sd)))
     = map (\<lambda>k. sum_list (map (\<lambda>r. cell_count (r ! k)) (table1_rows sd))) [1, 2, 3]
   \<and> map cell_count (tl (table2_total (g_total_of sd)))
     = map (\<lambda>k. sum_list (map (\<lambda>r. cell_count (r ! k)) (table2_rows sd))) [1, 2, 3, 4, 5]
   \<and> map cell_count (tl (table3_total (g_total_of sd)))
     = map (\<lambda>k. sum_list (map (\<lambda>r. cell_count (r ! k)) (table3_rows sd))) [1, 2, 3, 4, 5]
   \<and> cell_count (table1_total (g_total_of sd) ! 1)
     = sum_list (map (\<lambda>r. cell_count (r ! 5)) (table2_rows sd))
   \<and> cell_count (table1_total (g_total_of sd) ! 2)
     = sum_list (map (\<lambda>r. cell_count (r ! 5)) (table3_rows sd))"
proof -
  have t1: "map cell_count (tl (table1_total (g_total_of sd)))
     = map (\<lambda>k. sum_list (map (\<lambda>r. cell_count (r ! k)) (table1_rows sd))) [1, 2, 3]"
    by (simp add: table1_total_def g_total_of_eq cell_count_or_dash table1_column sum_list_add_map)
  have t2: "map cell_count (tl (table2_total (g_total_of sd)))
     = map (\<lambda>k. sum_list (map (\<lambda>r. cell_count (r ! k)) (table2_rows sd))) [1, 2, 3, 4, 5]"
    by (simp add: table2_total_def g_total_of_eq cell_count_or_dash table2_column upt_rec)
  have t3: "map cell_count (tl (table3_total (g_total_of sd)))
     = map (\<lambda>k. sum_list (map (\<lambda>r. cell_count (r ! k)) (table3_rows sd))) [1, 2, 3, 4, 5]"
    by (simp add: table3_total_def g_total_of_eq cell_count_or_dash table3_column upt_rec)
  have a: "cell_count (table1_total (g_total_of sd) ! 1)
     = sum_list (map (\<lambda>r. cell_count (r ! 5)) (table2_rows sd))"
    by (simp add: table1_total_def g_total_of_eq cell_count_or_dash table2_column)
  have b: "cell_count (table1_total (g_total_of sd) ! 2)
     = sum_list (map (\<lambda>r. cell_count (r ! 5)) (table3_rows sd))"
    by (simp add: table1_total_def g_total_of_eq cell_count_or_dash table3_column)
  from t1 t2 t3 a b show ?thesis by blast
qed


text \<open>Claim C5 at a summary of two domains.\<close>

theorem C5_grand_totals_witness:
  "cell_count (table1_total (g_total_of example_summary) ! 1) = 3
   \<and> sum_list (map (\<lambda>r. cell_count (r ! 5)) (table2_rows example_summary)) = 3"
proof -
  have v: "cell_count (table1_total (g_total_of example_summary) ! 1) = 3"
    by code_simp
  from C5_grand_totals[of example_summary] v show ?thesis by simp
qed

end
